theory Spec2Isabelle
  imports Complex_Main "HOL-Library.Word" "HOL-Library.Finite_Map" "HOL-Library.Char_ord"
    "HOL-Library.List_Lexorder"
begin

section \<open>Go values used by the telemetry agent\<close>

text \<open>
  A \<open>time.Time\<close> is modelled by the instant it denotes: the number of nanoseconds since
  the zero time instant (January 1, year 1, 00:00:00 UTC).  \<open>IsZero\<close> holds of that
  instant only.  A \<open>time.Duration\<close> is a signed 64-bit count of nanoseconds; \<open>Sub\<close>
  saturates at the ends of that range, as the Go library documents.

  A \<open>float64\<close> is modelled by the real number it denotes: arithmetic on it is exact
  (rounding, infinities and signed zeros are not part of the model).  Where the code
  tests for NaN the value is a \<open>real option\<close>, with \<open>None\<close> for NaN.
\<close>

type_synonym GoTime = int
type_synonym Duration = int
type_synonym float64 = real

definition IsZero :: "GoTime \<Rightarrow> bool" where
  "IsZero t \<longleftrightarrow> t = 0"

definition maxDuration :: Duration where
  "maxDuration = 2 ^ 63 - 1"

definition minDuration :: Duration where
  "minDuration = - (2 ^ 63)"

definition Sub :: "GoTime \<Rightarrow> GoTime \<Rightarrow> Duration" where
  "Sub t u = (if t - u > maxDuration then maxDuration
              else if t - u < minDuration then minDuration
              else t - u)"

text \<open>Go's integer division and remainder truncate towards zero.\<close>

definition quo :: "int \<Rightarrow> int \<Rightarrow> int" where
  "quo a b = sgn a * sgn b * (\<bar>a\<bar> div \<bar>b\<bar>)"

definition rem :: "int \<Rightarrow> int \<Rightarrow> int" where
  "rem a b = a - b * quo a b"

definition Milliseconds :: "Duration \<Rightarrow> int" where
  "Milliseconds d = quo d 1000000"

definition Seconds :: "Duration \<Rightarrow> float64" where
  "Seconds d = real_of_int (quo d 1000000000) + real_of_int (rem d 1000000000) / 1000000000"

text \<open>\<open>%d\<close> of a non-negative integer: its decimal digits.\<close>

definition digitChar :: "nat \<Rightarrow> char" where
  "digitChar d = ''0123456789'' ! d"

function itoa :: "nat \<Rightarrow> string" where
  "itoa n = (if n < 10 then [digitChar n] else itoa (n div 10) @ [digitChar (n mod 10)])"
  by pat_completeness auto
termination
  by (relation "measure id") auto

declare itoa.simps [simp del]

section \<open>Counter snapshots (package metrics)\<close>

record CPUTimeStats =
  User :: float64
  System :: float64
  Idle :: float64
  IOWait :: float64
  Irq :: float64
  SoftIrq :: float64
  Steal :: float64
  Guest :: float64
  GuestNice :: float64
  cpuTimestamp :: GoTime

record DiskIOStats =
  ReadCount :: "64 word"
  WriteCount :: "64 word"
  ReadTime :: "64 word"
  WriteTime :: "64 word"
  IOTime :: "64 word"
  diskTimestamp :: GoTime

record NetworkIOStats =
  BytesSent :: "64 word"
  BytesRecv :: "64 word"
  netTimestamp :: GoTime

section \<open>The delta engine\<close>

definition cpuTotal :: "CPUTimeStats \<Rightarrow> float64" where
  "cpuTotal s = User s + System s + Idle s + IOWait s + Irq s + SoftIrq s + Steal s"

definition CalculateCPUUtilization :: "CPUTimeStats \<Rightarrow> CPUTimeStats \<Rightarrow> float64" where
  "CalculateCPUUtilization prev current =
     (if IsZero (cpuTimestamp prev) then 0
      else let prevTotal = cpuTotal prev;
               currentTotal = cpuTotal current;
               deltaTotal = currentTotal - prevTotal;
               deltaIdle = Idle current - Idle prev
           in if deltaTotal \<le> 0 then 0
              else 100 * (1 - deltaIdle / deltaTotal))"

definition CalculateCPUIOWait :: "CPUTimeStats \<Rightarrow> CPUTimeStats \<Rightarrow> float64" where
  "CalculateCPUIOWait prev current =
     (if IsZero (cpuTimestamp prev) then - 1
      else if IOWait current < 0 then - 1
      else let prevTotal = cpuTotal prev;
               currentTotal = cpuTotal current;
               deltaTotal = currentTotal - prevTotal;
               deltaIOWait = IOWait current - IOWait prev
           in if deltaTotal \<le> 0 then 0
              else 100 * (deltaIOWait / deltaTotal))"

definition CalculateDiskUtilization :: "DiskIOStats \<Rightarrow> DiskIOStats \<Rightarrow> float64" where
  "CalculateDiskUtilization prev current =
     (if IsZero (diskTimestamp prev) then 0
      else let deltaTime = Milliseconds (Sub (diskTimestamp current) (diskTimestamp prev))
           in if deltaTime \<le> 0 then 0
              else let deltaIOTime = real (unat (IOTime current - IOTime prev));
                       utilization = (deltaIOTime / real_of_int deltaTime) * 100
                   in if utilization > 100 then 100 else utilization)"

definition CalculateDiskAwait :: "DiskIOStats \<Rightarrow> DiskIOStats \<Rightarrow> float64" where
  "CalculateDiskAwait prev current =
     (if IsZero (diskTimestamp prev) then 0
      else let deltaReadCount = ReadCount current - ReadCount prev;
               deltaWriteCount = WriteCount current - WriteCount prev;
               totalOps = deltaReadCount + deltaWriteCount
           in if totalOps = 0 then 0
              else let deltaReadTime = ReadTime current - ReadTime prev;
                       deltaWriteTime = WriteTime current - WriteTime prev;
                       totalTime = deltaReadTime + deltaWriteTime
                   in real (unat totalTime) / real (unat totalOps))"

definition CalculateDiskIOPS :: "DiskIOStats \<Rightarrow> DiskIOStats \<Rightarrow> float64" where
  "CalculateDiskIOPS prev current =
     (if IsZero (diskTimestamp prev) then 0
      else let deltaTime = Seconds (Sub (diskTimestamp current) (diskTimestamp prev))
           in if deltaTime \<le> 0 then 0
              else let deltaReadCount = ReadCount current - ReadCount prev;
                       deltaWriteCount = WriteCount current - WriteCount prev;
                       totalOps = deltaReadCount + deltaWriteCount
                   in real (unat totalOps) / deltaTime)"

definition CalculateNetworkBandwidth :: "NetworkIOStats \<Rightarrow> NetworkIOStats \<Rightarrow> float64" where
  "CalculateNetworkBandwidth prev current =
     (if IsZero (netTimestamp prev) then 0
      else let deltaTime = Seconds (Sub (netTimestamp current) (netTimestamp prev))
           in if deltaTime \<le> 0 then 0
              else let deltaSent = BytesSent current - BytesSent prev;
                       deltaRecv = BytesRecv current - BytesRecv prev;
                       totalBytes = deltaSent + deltaRecv
                   in real (unat (totalBytes * 8)) / deltaTime)"

text \<open>The inputs of the unit tests of the delta engine, with the timestamps left open.\<close>

definition normalUsagePrev :: "GoTime \<Rightarrow> CPUTimeStats" where
  "normalUsagePrev t = \<lparr>User = 100, System = 50, Idle = 800, IOWait = 10, Irq = 0, SoftIrq = 0,
     Steal = 0, Guest = 0, GuestNice = 0, cpuTimestamp = t\<rparr>"

definition normalUsageCurrent :: "GoTime \<Rightarrow> CPUTimeStats" where
  "normalUsageCurrent t = \<lparr>User = 110, System = 60, Idle = 810, IOWait = 15, Irq = 0, SoftIrq = 0,
     Steal = 0, Guest = 0, GuestNice = 0, cpuTimestamp = t\<rparr>"

definition diskBusy :: "64 word \<Rightarrow> GoTime \<Rightarrow> DiskIOStats" where
  "diskBusy busy t = \<lparr>ReadCount = 0, WriteCount = 0, ReadTime = 0, WriteTime = 0,
     IOTime = busy, diskTimestamp = t\<rparr>"

definition netBytes :: "64 word \<Rightarrow> 64 word \<Rightarrow> GoTime \<Rightarrow> NetworkIOStats" where
  "netBytes sent recv t = \<lparr>BytesSent = sent, BytesRecv = recv, netTimestamp = t\<rparr>"

section \<open>Errors\<close>

text \<open>
  The errors the modelled functions return, one constructor for each \<open>fmt.Errorf\<close> of the
  source; \<open>errorText\<close> is the message.  \<open>IndexOutOfRange\<close> is the run-time panic of a
  slice index beyond the length.  The messages are those of the source without the cause
  that \<open>%w\<close> appends.
\<close>

datatype error =
    MaxFilesReached
  | MaxLoadedFilesDuringProcessing
  | MaxLoadedFilesReached
  | FileNotFound string
  | DataNotFound string
  | ColumnNotFound string
  | StatFileFailed
  | FileTooLarge
  | OpenFileFailed
  | ReadHeaderFailed
  | TooFewColumns
  | ReadLineFailed nat
  | TooManyRows
  | NoValidRows
  | IndexOutOfRange
  | ChannelFull
  | FlushBeforeRotateFailed
  | CloseBeforeRotateFailed
  | OpenRotatedFileFailed
  | WriteHeaderToRotatedFileFailed
  | CollectError string

fun errorText :: "error \<Rightarrow> string" where
  "errorText MaxFilesReached =
     ''maximum number of files reached (20), please delete some files first''"
| "errorText MaxLoadedFilesDuringProcessing =
     ''maximum number of loaded files reached (20) during processing''"
| "errorText MaxLoadedFilesReached = ''maximum number of loaded files reached (20)''"
| "errorText (FileNotFound ident) = ''file not found: '' @ ident"
| "errorText (DataNotFound ident) = ''data not found for file: '' @ ident"
| "errorText (ColumnNotFound c) = ''column not found: '' @ c"
| "errorText StatFileFailed = ''failed to stat file''"
| "errorText FileTooLarge = ''file too large (max 200 MB)''"
| "errorText OpenFileFailed = ''failed to open file''"
| "errorText ReadHeaderFailed = ''failed to read CSV header''"
| "errorText TooFewColumns = ''CSV must have at least timestamp and one data column''"
| "errorText (ReadLineFailed line) = ''error reading CSV line '' @ itoa line"
| "errorText TooManyRows = ''file has too many rows (max 5000000)''"
| "errorText NoValidRows = ''CSV file contains no valid data rows''"
| "errorText IndexOutOfRange = ''runtime error: index out of range''"
| "errorText ChannelFull = ''metrics channel full''"
| "errorText FlushBeforeRotateFailed = ''flush before rotate failed''"
| "errorText CloseBeforeRotateFailed = ''close before rotate failed''"
| "errorText OpenRotatedFileFailed = ''failed to open new rotated file''"
| "errorText WriteHeaderToRotatedFileFailed = ''failed to write header to rotated file''"
| "errorText (CollectError m) = m"

section \<open>The time-series store (internal/server/csvdata.go)\<close>

text \<open>
  Seconds between the zero time instant and the Unix epoch; \<open>Unix\<close> is \<open>Time.Unix()\<close>
  (whole seconds since the epoch, rounded down) and \<open>unixTime s\<close> is \<open>time.Unix(s, 0)\<close>.
\<close>

definition unixToInternal :: int where
  "unixToInternal = 62135596800"

definition Unix :: "GoTime \<Rightarrow> int" where
  "Unix t = t div 1000000000 - unixToInternal"

definition unixTime :: "int \<Rightarrow> GoTime" where
  "unixTime sec = (sec + unixToInternal) * 1000000000"

definition MaxFiles :: nat where
  "MaxFiles = 20"

record CSVFile =
  ID :: string
  Name :: string
  Path :: string
  Columns :: "string list"
  RowCount :: int
  MinTime :: GoTime
  MaxTime :: GoTime
  IsLoaded :: bool

record DataPoint =
  Timestamp :: GoTime
  Value :: float64

record ColumnData =
  Timestamps :: "int list"
  Values :: "(string, real option list) fmap"

record CSVDataService =
  files :: "(string, CSVFile) fmap"
  columnData :: "(string, ColumnData) fmap"

definition NewCSVDataService :: CSVDataService where
  "NewCSVDataService = \<lparr>files = fmempty, columnData = fmempty\<rparr>"

text \<open>The loop that counts the entries of \<open>s.files\<close> whose \<open>IsLoaded\<close> flag is set.\<close>

definition isLoadedEntry :: "CSVDataService \<Rightarrow> string \<Rightarrow> bool" where
  "isLoadedEntry s ident = (case fmlookup (files s) ident of None \<Rightarrow> False | Some f \<Rightarrow> IsLoaded f)"

definition loadedCount :: "CSVDataService \<Rightarrow> nat" where
  "loadedCount s = fcard (ffilter (isLoadedEntry s) (fmdom (files s)))"

subsection \<open>Reading a record file\<close>

text \<open>
  What \<open>processCSVFile\<close> meets outside the program is the environment of the model.  A
  path of the host's file system leads to a \<open>FileOnDisk\<close>: whether \<open>os.Stat\<close> and \<open>os.Open\<close>
  fail, the size that \<open>Stat\<close> reports, and the successive results of \<open>csv.Reader.Read\<close> on
  the file, each a record (\<open>Inr\<close>) or a read error (\<open>Inl\<close>); after the last of them \<open>Read\<close>
  returns \<open>io.EOF\<close>.  The library functions \<open>time.Parse\<close> (layout, then value; \<open>None\<close> for an
  error), \<open>strings.TrimSpace\<close> and \<open>strconv.ParseFloat\<close> (\<open>None\<close> for an error, \<open>Some None\<close>
  for NaN) are parameters as well.
\<close>

record FileOnDisk =
  statError :: bool
  fileSize :: int
  openError :: bool
  csvReads :: "(string + string list) list"

record Env =
  timeParse :: "string \<Rightarrow> string \<Rightarrow> GoTime option"
  TrimSpace :: "string \<Rightarrow> string"
  ParseFloat :: "string \<Rightarrow> real option option"
  disk :: "string \<Rightarrow> FileOnDisk"

definition MaxFileSize :: int where
  "MaxFileSize = 200 * 1024 * 1024"

definition MaxRowsPerFile :: nat where
  "MaxRowsPerFile = 5000000"

definition timeFormats :: "string list" where
  "timeFormats = [''2006-01-02 15:04:05'', ''2006-01-02T15:04:05Z07:00'',
                  ''2006-01-02T15:04:05'', ''02/01/2006 15:04:05'']"

fun tryFormats :: "Env \<Rightarrow> string list \<Rightarrow> string \<Rightarrow> GoTime" where
  "tryFormats env [] str = 0"
| "tryFormats env (format # formats) str =
     (case timeParse env format str of
        Some t \<Rightarrow> t
      | None \<Rightarrow> tryFormats env formats str)"

definition parseTimestamp :: "Env \<Rightarrow> string \<Rightarrow> GoTime" where
  "parseTimestamp env str = tryFormats env timeFormats (TrimSpace env str)"

text \<open>
  The state of the loop over the data lines, and the loop over the value cells of one
  line.  \<open>colValues\<close> reads a column of the map, a missing key giving the empty slice.
\<close>

record ParseState =
  timestamps :: "int list"
  valueCols :: "(string, real option list) fmap"
  rowCount :: nat
  minTime :: GoTime
  maxTime :: GoTime

definition colValues :: "(string, real option list) fmap \<Rightarrow> string \<Rightarrow> real option list" where
  "colValues cols c = (case fmlookup cols c of None \<Rightarrow> [] | Some xs \<Rightarrow> xs)"

definition parseCell :: "Env \<Rightarrow> string \<Rightarrow> real option" where
  "parseCell env cell =
     (let valStr = TrimSpace env cell
      in if valStr = [] \<or> valStr = ''N/A'' then None
         else (case ParseFloat env valStr of
                 None \<Rightarrow> None
               | Some v \<Rightarrow> v))"

definition appendCell ::
  "Env \<Rightarrow> string list \<Rightarrow> string list \<Rightarrow> nat
     \<Rightarrow> (string, real option list) fmap \<Rightarrow> (string, real option list) fmap" where
  "appendCell env header rec i cols =
     (let colName = header ! i
      in fmupd colName (colValues cols colName @ [parseCell env (rec ! i)]) cols)"

text \<open>
  \<open>csv.Reader\<close> returns an error for a record whose number of fields differs from that of
  the first record, so the cells \<open>record[0]\<close> to \<open>record[colCount - 1]\<close> exist.
\<close>

fun readRows ::
  "Env \<Rightarrow> string list \<Rightarrow> (string + string list) list \<Rightarrow> ParseState \<Rightarrow> error + ParseState" where
  "readRows env header [] st = Inr st"
| "readRows env header (Inl err # reads) st = Inl (ReadLineFailed (rowCount st + 2))"
| "readRows env header (Inr rec # reads) st =
     (if length rec \<noteq> length header then Inl (ReadLineFailed (rowCount st + 2))
      else if rowCount st \<ge> MaxRowsPerFile then Inl TooManyRows
      else (let t = parseTimestamp env (rec ! 0)
            in if IsZero t then readRows env header reads st
               else readRows env header reads
                      \<lparr>timestamps = timestamps st @ [Unix t],
                       valueCols = fold (appendCell env header rec) [1..<length header]
                                     (valueCols st),
                       rowCount = rowCount st + 1,
                       minTime = (if rowCount st = 0 then t
                                  else if t < minTime st then t else minTime st),
                       maxTime = (if rowCount st = 0 then t
                                  else if t > maxTime st then t else maxTime st)\<rparr>))"

definition processCSVFile ::
  "Env \<Rightarrow> string \<Rightarrow> string \<Rightarrow> string \<Rightarrow> error + (ColumnData \<times> CSVFile)" where
  "processCSVFile env ident name path =
     (let f = disk env path
      in if statError f then Inl StatFileFailed
         else if fileSize f > MaxFileSize then Inl FileTooLarge
         else if openError f then Inl OpenFileFailed
         else (case csvReads f of
                 [] \<Rightarrow> Inl ReadHeaderFailed
               | Inl err # reads \<Rightarrow> Inl ReadHeaderFailed
               | Inr header # reads \<Rightarrow>
                   if length header < 2 then Inl TooFewColumns
                   else (case readRows env header reads
                                 \<lparr>timestamps = [],
                                  valueCols = fold (\<lambda>i cols. fmupd (header ! i) [] cols)
                                                [1..<length header] fmempty,
                                  rowCount = 0, minTime = 0, maxTime = 0\<rparr> of
                           Inl err \<Rightarrow> Inl err
                         | Inr st \<Rightarrow>
                             if rowCount st = 0 then Inl NoValidRows
                             else Inr (\<lparr>Timestamps = timestamps st, Values = valueCols st\<rparr>,
                                       \<lparr>ID = ident, Name = name, Path = path, Columns = header,
                                        RowCount = int (rowCount st), MinTime = minTime st,
                                        MaxTime = maxTime st, IsLoaded = False\<rparr>))))"

text \<open>
  The operations run one at a time (the store's lock is not modelled): each takes the
  store and returns the error, if any, and the store afterwards.
\<close>

definition LoadFile ::
  "Env \<Rightarrow> CSVDataService \<Rightarrow> string \<Rightarrow> string \<Rightarrow> string \<Rightarrow> error option \<times> CSVDataService" where
  "LoadFile env s ident name path =
     (if fcard (fmdom (files s)) \<ge> MaxFiles then (Some MaxFilesReached, s)
      else (case processCSVFile env ident name path of
              Inl err \<Rightarrow> (Some err, s)
            | Inr (parsedCols, fileMeta0) \<Rightarrow>
                (let fileMeta = fileMeta0\<lparr>IsLoaded := True\<rparr>
                 in if loadedCount s \<ge> MaxFiles then (Some MaxLoadedFilesDuringProcessing, s)
                    else (None, s\<lparr>files := fmupd ident fileMeta (files s),
                                   columnData := fmupd ident parsedCols (columnData s)\<rparr>))))"

definition RegisterFile :: "CSVDataService \<Rightarrow> string \<Rightarrow> string \<Rightarrow> string \<Rightarrow> CSVDataService" where
  "RegisterFile s ident name path =
     (case fmlookup (files s) ident of
        Some f \<Rightarrow> s
      | None \<Rightarrow> s\<lparr>files := fmupd ident
                    \<lparr>ID = ident, Name = name, Path = path, Columns = [], RowCount = 0,
                     MinTime = 0, MaxTime = 0, IsLoaded = False\<rparr> (files s)\<rparr>)"

definition LoadFileContent ::
  "Env \<Rightarrow> CSVDataService \<Rightarrow> string \<Rightarrow> error option \<times> CSVDataService" where
  "LoadFileContent env s ident =
     (case fmlookup (files s) ident of
        None \<Rightarrow> (Some (FileNotFound ident), s)
      | Some fileMeta \<Rightarrow>
          (if IsLoaded fileMeta then (None, s)
           else if loadedCount s \<ge> MaxFiles then (Some MaxLoadedFilesReached, s)
           else (case processCSVFile env ident (Name fileMeta) (Path fileMeta) of
                   Inl err \<Rightarrow> (Some err, s)
                 | Inr (parsedCols, newMeta) \<Rightarrow>
                     (None, s\<lparr>files := fmupd ident (newMeta\<lparr>IsLoaded := True\<rparr>) (files s),
                               columnData := fmupd ident parsedCols (columnData s)\<rparr>))))"

definition GetFile :: "CSVDataService \<Rightarrow> string \<Rightarrow> CSVFile option" where
  "GetFile s ident = fmlookup (files s) ident"

definition DeleteFile :: "CSVDataService \<Rightarrow> string \<Rightarrow> error option \<times> CSVDataService" where
  "DeleteFile s ident =
     (case fmlookup (files s) ident of
        None \<Rightarrow> (Some (FileNotFound ident), s)
      | Some f \<Rightarrow> (None, s\<lparr>files := fmdrop ident (files s),
                            columnData := fmdrop ident (columnData s)\<rparr>))"

definition DeleteAll :: "CSVDataService \<Rightarrow> CSVDataService" where
  "DeleteAll s = s\<lparr>files := fmempty, columnData := fmempty\<rparr>"

subsection \<open>Range queries\<close>

text \<open>
  \<open>sort.Search(n, f)\<close> of the Go library: binary search for the least index in \<open>[0, n)\<close>
  at which \<open>f\<close> holds, \<open>n\<close> if there is none.  The midpoint \<open>h\<close> is below \<open>j \<le> n\<close>, so
  \<open>f\<close> is only asked about indices of the slice.
\<close>

function searchLoop :: "(nat \<Rightarrow> bool) \<Rightarrow> nat \<Rightarrow> nat \<Rightarrow> nat" where
  "searchLoop f i j =
     (if i < j then
        (let h = (i + j) div 2
         in if \<not> f h then searchLoop f (h + 1) j else searchLoop f i h)
      else i)"
  by pat_completeness auto
termination
  by (relation "measure (\<lambda>(f, i, j). j - i)") auto

declare searchLoop.simps [simp del]

definition Search :: "nat \<Rightarrow> (nat \<Rightarrow> bool) \<Rightarrow> nat" where
  "Search n f = searchLoop f 0 n"

definition maxPoints :: nat where
  "maxPoints = 2000"

text \<open>
  The loop of the branch that returns every point: indices \<open>i\<close> up to \<open>endIdx\<close>, skipping
  NaN.  \<open>values[i]\<close> panics when the value slice is shorter than the timestamps.
\<close>

function rawLoop ::
  "int list \<Rightarrow> real option list \<Rightarrow> nat \<Rightarrow> nat \<Rightarrow> DataPoint list \<Rightarrow> error + DataPoint list" where
  "rawLoop ts vals i endIdx dataPoints =
     (if i < endIdx then
        (if i < length vals then
           (case vals ! i of
              None \<Rightarrow> rawLoop ts vals (i + 1) endIdx dataPoints
            | Some v \<Rightarrow> rawLoop ts vals (i + 1) endIdx
                         (dataPoints @ [\<lparr>Timestamp = unixTime (ts ! i), Value = v\<rparr>]))
         else Inl IndexOutOfRange)
      else Inr dataPoints)"
  by pat_completeness auto
termination
  by (relation "measure (\<lambda>(ts, vals, i, endIdx, dataPoints). endIdx - i)") auto

declare rawLoop.simps [simp del]

text \<open>The inner loop of the downsampling branch: sum and count of the non-NaN values.\<close>

function bucketLoop ::
  "real option list \<Rightarrow> nat \<Rightarrow> nat \<Rightarrow> real \<Rightarrow> nat \<Rightarrow> error + (real \<times> nat)" where
  "bucketLoop vals j pEnd sumv count =
     (if j < pEnd then
        (if j < length vals then
           (case vals ! j of
              None \<Rightarrow> bucketLoop vals (j + 1) pEnd sumv count
            | Some v \<Rightarrow> bucketLoop vals (j + 1) pEnd (sumv + v) (count + 1))
         else Inl IndexOutOfRange)
      else Inr (sumv, count))"
  by pat_completeness auto
termination
  by (relation "measure (\<lambda>(vals, j, pEnd, sumv, count). pEnd - j)") auto

declare bucketLoop.simps [simp del]

text \<open>\<open>int(x)\<close> for a float64 \<open>x \<ge> 0\<close>: the fraction is dropped.\<close>

definition toInt :: "float64 \<Rightarrow> nat" where
  "toInt x = nat \<lfloor>x\<rfloor>"

function downsampleLoop ::
  "int list \<Rightarrow> real option list \<Rightarrow> nat \<Rightarrow> nat \<Rightarrow> float64 \<Rightarrow> nat \<Rightarrow> DataPoint list
     \<Rightarrow> error + DataPoint list" where
  "downsampleLoop ts vals startIdx endIdx bucketSize i dataPoints =
     (if i < maxPoints then
        (let pStart = startIdx + toInt (real i * bucketSize);
             pEnd0 = startIdx + toInt (real (i + 1) * bucketSize);
             pEnd = (if pEnd0 > endIdx then endIdx else pEnd0)
         in if pStart \<ge> pEnd
            then downsampleLoop ts vals startIdx endIdx bucketSize (i + 1) dataPoints
            else (case bucketLoop vals pStart pEnd 0 0 of
                    Inl err \<Rightarrow> Inl err
                  | Inr (sumv, count) \<Rightarrow>
                      (if count > 0
                       then downsampleLoop ts vals startIdx endIdx bucketSize (i + 1)
                              (dataPoints @ [\<lparr>Timestamp = unixTime (ts ! pStart),
                                              Value = sumv / real count\<rparr>])
                       else downsampleLoop ts vals startIdx endIdx bucketSize (i + 1)
                              dataPoints)))
      else Inr dataPoints)"
  by pat_completeness auto
termination
  by (relation "measure (\<lambda>(ts, vals, startIdx, endIdx, bucketSize, i, dataPoints). maxPoints - i)")
    auto

declare downsampleLoop.simps [simp del]

text \<open>Steps 3 and 4 of \<open>GetColumnData\<close>: the two binary searches.\<close>

definition startIndex :: "int list \<Rightarrow> GoTime option \<Rightarrow> nat" where
  "startIndex ts timeFrom =
     (case timeFrom of
        None \<Rightarrow> 0
      | Some tf \<Rightarrow> Search (length ts) (\<lambda>i. ts ! i \<ge> Unix tf))"

definition endIndex :: "int list \<Rightarrow> GoTime option \<Rightarrow> nat" where
  "endIndex ts timeTo =
     (case timeTo of
        None \<Rightarrow> length ts
      | Some tt \<Rightarrow>
          (let idx = Search (length ts) (\<lambda>i. ts ! i > Unix tt)
           in if idx < length ts then idx else length ts))"

definition GetColumnData ::
  "CSVDataService \<Rightarrow> string \<Rightarrow> string \<Rightarrow> GoTime option \<Rightarrow> GoTime option
     \<Rightarrow> error + DataPoint list" where
  "GetColumnData s fileID columnName timeFrom timeTo =
     (case fmlookup (columnData s) fileID of
        None \<Rightarrow> Inl (DataNotFound fileID)
      | Some colsData \<Rightarrow>
          (case fmlookup (Values colsData) columnName of
             None \<Rightarrow> Inl (ColumnNotFound columnName)
           | Some vals \<Rightarrow>
               (let ts = Timestamps colsData;
                    startIdx = startIndex ts timeFrom;
                    endIdx = endIndex ts timeTo
                in if startIdx \<ge> endIdx then Inr []
                   else (let totalPoints = endIdx - startIdx
                         in if totalPoints \<le> maxPoints
                            then rawLoop ts vals startIdx endIdx []
                            else downsampleLoop ts vals startIdx endIdx
                                   (real totalPoints / real maxPoints) 0 []))))"

subsection \<open>What a query is specified to return\<close>

text \<open>
  The specification's side of the range query.  A stored timestamp \<open>t\<close> (whole seconds
  since the Unix epoch) is in the range when it is not before the lower bound and not
  after the upper bound, both read in whole seconds as \<open>GetColumnData\<close> reads them; an
  absent bound does not restrict.  \<open>rawPoints\<close> turns the rows of a column into data
  points, leaving out the rows whose value is NaN.
\<close>

definition notBefore :: "GoTime option \<Rightarrow> int \<Rightarrow> bool" where
  "notBefore timeFrom t \<longleftrightarrow> (case timeFrom of None \<Rightarrow> True | Some tf \<Rightarrow> Unix tf \<le> t)"

definition notAfter :: "GoTime option \<Rightarrow> int \<Rightarrow> bool" where
  "notAfter timeTo t \<longleftrightarrow> (case timeTo of None \<Rightarrow> True | Some tt \<Rightarrow> t \<le> Unix tt)"

definition inRange :: "GoTime option \<Rightarrow> GoTime option \<Rightarrow> int \<Rightarrow> bool" where
  "inRange timeFrom timeTo t \<longleftrightarrow> notBefore timeFrom t \<and> notAfter timeTo t"

definition rawPoints :: "(int \<times> real option) list \<Rightarrow> DataPoint list" where
  "rawPoints zs = [\<lparr>Timestamp = unixTime t, Value = v\<rparr>. (t, Some v) \<leftarrow> zs]"

text \<open>
  The specification's side of downsampling.  Bucket \<open>k\<close> of a range of \<open>totalPoints\<close> rows
  that starts at row \<open>startIdx\<close> begins at row \<open>startIdx + \<lfloor>k * totalPoints / 2000\<rfloor>\<close> and
  ends before the start of bucket \<open>k + 1\<close>.  A bucket with a non-NaN value gives one point:
  the timestamp of its first row and the average of its non-NaN values.
\<close>

definition validValues :: "real option list \<Rightarrow> real list" where
  "validValues xs = [v. Some v \<leftarrow> xs]"

definition bucketStart :: "nat \<Rightarrow> nat \<Rightarrow> nat \<Rightarrow> nat" where
  "bucketStart startIdx totalPoints k = startIdx + (k * totalPoints) div maxPoints"

definition bucketValues :: "real option list \<Rightarrow> nat \<Rightarrow> nat \<Rightarrow> nat \<Rightarrow> real list" where
  "bucketValues vals startIdx totalPoints k =
     validValues (take (bucketStart startIdx totalPoints (k + 1) - bucketStart startIdx totalPoints k)
                    (drop (bucketStart startIdx totalPoints k) vals))"

definition bucketPoint :: "int list \<Rightarrow> real option list \<Rightarrow> nat \<Rightarrow> nat \<Rightarrow> nat \<Rightarrow> DataPoint list" where
  "bucketPoint ts vals startIdx totalPoints k =
     (let vs = bucketValues vals startIdx totalPoints k
      in if vs = [] then []
         else [\<lparr>Timestamp = unixTime (ts ! bucketStart startIdx totalPoints k),
                Value = sum_list vs / real (length vs)\<rparr>])"

text \<open>
  Every file with column data has a metadata entry: the operations keep this, so an id
  unknown to the store has no column data.
\<close>

definition storeInv :: "CSVDataService \<Rightarrow> bool" where
  "storeInv s \<longleftrightarrow> fmdom (columnData s) |\<subseteq>| fmdom (files s)"

subsection \<open>The stores of the unit tests\<close>

text \<open>
  \<open>TestCSVDataService_LoadAndGet\<close>: four rows, one second apart from 2023-10-26 10:00:00
  UTC, the CPU cell of the second row being \<open>N/A\<close>.
\<close>

definition testColumns :: ColumnData where
  "testColumns = \<lparr>Timestamps = [1698314400, 1698314401, 1698314402, 1698314403],
     Values = fmupd ''CPU'' [Some 10, None, Some 12, Some 13]
               (fmupd ''Memory'' [Some 50, Some 51, Some 52, Some 53] fmempty)\<rparr>"

definition testStore :: CSVDataService where
  "testStore = \<lparr>files = fmupd ''file1''
       \<lparr>ID = ''file1'', Name = ''Test File'', Path = ''test.csv'',
        Columns = [''Timestamp'', ''CPU'', ''Memory''], RowCount = 4,
        MinTime = unixTime 1698314400, MaxTime = unixTime 1698314403, IsLoaded = True\<rparr> fmempty,
     columnData = fmupd ''file1'' testColumns fmempty\<rparr>"

text \<open>
  \<open>TestCSVDataService_Downsampling\<close>: \<open>n\<close> rows, one second apart from 2023-01-01
  00:00:00 UTC, row \<open>i\<close> holding the value \<open>i\<close>.
\<close>

definition largeTimestamps :: "nat \<Rightarrow> int list" where
  "largeTimestamps n = map (\<lambda>i. 1672531200 + int i) [0..<n]"

definition largeValues :: "nat \<Rightarrow> real option list" where
  "largeValues n = map (\<lambda>i. Some (real i)) [0..<n]"

definition largeColumns :: "nat \<Rightarrow> ColumnData" where
  "largeColumns n = \<lparr>Timestamps = largeTimestamps n,
     Values = fmupd ''Val'' (largeValues n) fmempty\<rparr>"

definition largeStore :: "nat \<Rightarrow> CSVDataService" where
  "largeStore n = \<lparr>files = fmupd ''large''
       \<lparr>ID = ''large'', Name = ''Large'', Path = ''large.csv'',
        Columns = [''Timestamp'', ''Val''], RowCount = int n,
        MinTime = unixTime 1672531200, MaxTime = unixTime (1672531200 + int n - 1),
        IsLoaded = True\<rparr> fmempty,
     columnData = fmupd ''large'' (largeColumns n) fmempty\<rparr>"

text \<open>
  \<open>TestCSVDataService_MaxFilesLimit\<close> loads a one-row file, \<open>dummy.csv\<close>; \<open>dummyEnv\<close> is an
  environment that holds it and parses its two cells.  \<open>registerAll\<close> registers a list of ids
  without loading them.
\<close>

definition dummyFile :: FileOnDisk where
  "dummyFile = \<lparr>statError = False, fileSize = 36, openError = False,
     csvReads = [Inr [''Timestamp'', ''Val''], Inr [''2023-01-01 00:00:00'', ''1'']]\<rparr>"

definition dummyEnv :: Env where
  "dummyEnv = \<lparr>
     timeParse = (\<lambda>format str.
        if format = ''2006-01-02 15:04:05'' \<and> str = ''2023-01-01 00:00:00''
        then Some (unixTime 1672531200) else None),
     TrimSpace = (\<lambda>str. str),
     ParseFloat = (\<lambda>str. if str = ''1'' then Some (Some 1) else None),
     disk = (\<lambda>path. if path = ''dummy.csv'' \<or> path = ''uploads/a'' then dummyFile
                     else \<lparr>statError = True, fileSize = 0, openError = True, csvReads = []\<rparr>)\<rparr>"

definition registerAll :: "string list \<Rightarrow> CSVDataService" where
  "registerAll ids =
     fold (\<lambda>ident s. RegisterFile s ident ident (''uploads/'' @ ident)) ids NewCSVDataService"

definition twentyIds :: "string list" where
  "twentyIds = [''a'', ''b'', ''c'', ''d'', ''e'', ''f'', ''g'', ''h'', ''i'', ''j'',
                ''k'', ''l'', ''m'', ''n'', ''o'', ''p'', ''q'', ''r'', ''s'', ''t'']"

section \<open>The collection manager (internal/collector/manager.go)\<close>

record DiskStats =
  Utilization :: float64
  Await :: float64
  IOPS :: float64

record NetStats =
  Bandwidth :: float64

record Snapshot =
  snapTimestamp :: GoTime
  CPU :: float64
  CPUWait :: float64
  Memory :: float64
  Disks :: "(string, DiskStats) fmap"
  Networks :: "(string, NetStats) fmap"

text \<open>
  A buffered channel of snapshots: the queued elements, oldest first, and the capacity
  given to \<open>make\<close>.  \<open>trySend\<close> is the send of a \<open>select\<close> that has a \<open>default\<close> case: it
  enqueues when a slot is free and otherwise reports that the \<open>default\<close> case runs.  (With a
  positive capacity a receiver can only be waiting while the queue is empty, so a waiting
  receiver adds no case.)  The program creates the channel with capacity 10.
\<close>

record Chan =
  queue :: "Snapshot list"
  capacity :: nat

definition newMetricsChan :: Chan where
  "newMetricsChan = \<lparr>queue = [], capacity = 10\<rparr>"

definition trySend :: "Chan \<Rightarrow> Snapshot \<Rightarrow> Chan option" where
  "trySend c x = (if length (queue c) < capacity c then Some (c\<lparr>queue := queue c @ [x]\<rparr>) else None)"

datatype logLevel = LevelDebug | LevelInfo | LevelWarn | LevelError

record Manager =
  metricsChan :: Chan
  logged :: "(logLevel \<times> string) list"

definition logMsg :: "logLevel \<Rightarrow> string \<Rightarrow> Manager \<Rightarrow> Manager" where
  "logMsg lvl msg m = m\<lparr>logged := logged m @ [(lvl, msg)]\<rparr>"

text \<open>
  One collection cycle.  The outcomes of the four collectors' \<open>Collect\<close> calls and the
  reading of the clock are inputs; a collector returns an error or its metrics, the disk and
  network collectors a map that may be \<open>nil\<close> (\<open>None\<close>).  The four goroutines write disjoint
  fields of the snapshot under one mutex, so the merged snapshot does not depend on their
  interleaving; their warnings are logged here in the order CPU, memory, disk, network.
\<close>

definition mergeSnapshot ::
  "GoTime \<Rightarrow> error + (float64 \<times> float64) \<Rightarrow> error + float64
     \<Rightarrow> error + (string, DiskStats) fmap option \<Rightarrow> error + (string, NetStats) fmap option
     \<Rightarrow> Snapshot" where
  "mergeSnapshot now cpuRes memRes diskRes netRes =
     (let snapshot0 = \<lparr>snapTimestamp = now, CPU = 0, CPUWait = 0, Memory = 0,
                          Disks = fmempty, Networks = fmempty\<rparr>;
          snapshot1 = (case cpuRes of
                         Inl err \<Rightarrow> snapshot0
                       | Inr (cpuUtil, cpuWait) \<Rightarrow> snapshot0\<lparr>CPU := cpuUtil, CPUWait := cpuWait\<rparr>);
          snapshot2 = (case memRes of
                         Inl err \<Rightarrow> snapshot1
                       | Inr memUtil \<Rightarrow> snapshot1\<lparr>Memory := memUtil\<rparr>);
          snapshot3 = (case diskRes of
                         Inl err \<Rightarrow> snapshot2
                       | Inr None \<Rightarrow> snapshot2
                       | Inr (Some diskStats) \<Rightarrow> snapshot2\<lparr>Disks := diskStats\<rparr>)
      in (case netRes of
            Inl err \<Rightarrow> snapshot3
          | Inr None \<Rightarrow> snapshot3
          | Inr (Some netStats) \<Rightarrow> snapshot3\<lparr>Networks := netStats\<rparr>))"

definition collectorWarnings ::
  "error + (float64 \<times> float64) \<Rightarrow> error + float64
     \<Rightarrow> error + (string, DiskStats) fmap option \<Rightarrow> error + (string, NetStats) fmap option
     \<Rightarrow> (logLevel \<times> string) list" where
  "collectorWarnings cpuRes memRes diskRes netRes =
     (case cpuRes of Inl err \<Rightarrow> [(LevelWarn, ''Failed to collect CPU metrics'')] | Inr r \<Rightarrow> [])
     @ (case memRes of Inl err \<Rightarrow> [(LevelWarn, ''Failed to collect memory metrics'')] | Inr r \<Rightarrow> [])
     @ (case diskRes of Inl err \<Rightarrow> [(LevelWarn, ''Failed to collect disk metrics'')] | Inr r \<Rightarrow> [])
     @ (case netRes of Inl err \<Rightarrow> [(LevelWarn, ''Failed to collect network metrics'')] | Inr r \<Rightarrow> [])"

definition collectOnce ::
  "GoTime \<Rightarrow> error + (float64 \<times> float64) \<Rightarrow> error + float64
     \<Rightarrow> error + (string, DiskStats) fmap option \<Rightarrow> error + (string, NetStats) fmap option
     \<Rightarrow> Manager \<Rightarrow> error option \<times> Manager" where
  "collectOnce now cpuRes memRes diskRes netRes m =
     (let snapshot = mergeSnapshot now cpuRes memRes diskRes netRes;
          m1 = m\<lparr>logged := logged m @ collectorWarnings cpuRes memRes diskRes netRes\<rparr>;
          disksEmpty = (fcard (fmdom (Disks snapshot)) = 0);
          netsEmpty = (fcard (fmdom (Networks snapshot)) = 0)
      in if disksEmpty \<or> netsEmpty
         then (None, logMsg LevelDebug ''Baseline collection completed'' m1)
         else (case trySend (metricsChan m1) snapshot of
                 Some c \<Rightarrow> (None, logMsg LevelDebug ''Snapshot sent'' (m1\<lparr>metricsChan := c\<rparr>))
               | None \<Rightarrow> (Some ChannelFull,
                           logMsg LevelWarn ''Metrics channel full, dropping snapshot'' m1)))"

section \<open>The export sink: file rotation (CSVExporter.rotateFile)\<close>

text \<open>
  The file system is a finite map from paths to the bytes of the file.  The failures of
  the input and output calls are inputs of the model: \<open>flushFails\<close>, \<open>closeFails\<close>, \<open>openFails\<close>
  and \<open>writeFails\<close> say whether the flush, the close, the \<open>os.OpenFile\<close> and the write of the
  header row return an error, and \<open>statFails p\<close> says that \<open>os.Stat\<close> of the path \<open>p\<close> fails
  with an error other than ``does not exist'' (a permission error, say).
\<close>

type_synonym FS = "(string, string) fmap"

record Faults =
  flushFails :: bool
  closeFails :: bool
  openFails :: bool
  writeFails :: bool
  statFails :: "string \<Rightarrow> bool"

definition noFaults :: Faults where
  "noFaults = \<lparr>flushFails = False, closeFails = False, openFails = False, writeFails = False,
               statFails = (\<lambda>p. False)\<rparr>"

definition contents :: "FS \<Rightarrow> string \<Rightarrow> string" where
  "contents fs p = (case fmlookup fs p of None \<Rightarrow> [] | Some bytes \<Rightarrow> bytes)"

text \<open>
  The fields of \<open>CSVExporter\<close> that rotation reads or writes.  \<open>outFile\<close> is the field \<open>file\<close>, as the path the open
  handle was opened at and \<open>fileOpen\<close> whether the handle is open; \<open>buffered\<close> holds the bytes
  written to \<open>csvWriter\<close> and \<open>bufWriter\<close> that have not reached the file (the two share one
  buffer, and \<open>bufio\<close>'s writing through of a full buffer is not modelled: it changes when
  bytes reach the file, not which).  \<open>fileIndex\<close> is a Go \<open>int\<close> that only counts up from 0;
  it is a natural number here.
\<close>

record CSVExporter =
  outFile :: string
  fileOpen :: bool
  buffered :: string
  recordCount :: int
  headerWritten :: bool
  deviceOrder :: "string list"
  ifaceOrder :: "string list"
  currentSize :: int
  basePath :: string
  fileIndex :: nat





text \<open>
  The header row of \<open>writeHeader\<close>.  The device and interface names are the keys of the
  snapshot's maps in the order of \<open>sort.Strings\<close> (bytewise lexicographic).
\<close>

definition sortedKeys :: "(string, 'v) fmap \<Rightarrow> string list" where
  "sortedKeys m = sorted_list_of_fset (fmdom m)"

definition diskColumns :: "string \<Rightarrow> string list" where
  "diskColumns device =
     [''Disk ['' @ device @ ''] Utilization (%)'',
      ''Disk ['' @ device @ ''] Average Wait (ms)'',
      ''Disk ['' @ device @ ''] Throughput (IOPS)'']"

definition netColumn :: "string \<Rightarrow> string" where
  "netColumn iface = ''Network ['' @ iface @ ''] Throughput (Mbps)''"

definition headerRow :: "Snapshot \<Rightarrow> string list" where
  "headerRow snapshot =
     [''Timestamp'', ''CPU Utilization (%)'', ''CPU IO Wait (%)'', ''Memory Utilization (%)'']
     @ concat (map diskColumns (sortedKeys (Disks snapshot)))
     @ map netColumn (sortedKeys (Networks snapshot))"

text \<open>
  \<open>csv.Writer.Write\<close> appends the encoding of a row to the buffer; the encoding of the
  \<open>encoding/csv\<close> package is a parameter (type \<open>csvEncoder\<close>).  \<open>plainRow\<close> is that encoding
  for rows whose fields need no quotes.
\<close>

type_synonym csvEncoder = "string list \<Rightarrow> string"

fun joinComma :: "string list \<Rightarrow> string" where
  "joinComma [] = []"
| "joinComma [x] = x"
| "joinComma (x # y # zs) = x @ '','' @ joinComma (y # zs)"

definition plainRow :: csvEncoder where
  "plainRow cells = joinComma cells @ [CHR 0x0A]"


text \<open>\<open>flush\<close>: the buffered bytes are appended to the open file.\<close>

definition flush :: "Faults \<Rightarrow> CSVExporter \<times> FS \<Rightarrow> bool \<times> CSVExporter \<times> FS" where
  "flush faults st =
     (case st of (e, fs) \<Rightarrow>
        if flushFails faults then (False, e, fs)
        else (True, e\<lparr>buffered := []\<rparr>,
              fmupd (outFile e) (contents fs (outFile e) @ buffered e) fs))"




text \<open>The snapshots and the exporter of the rotation tests.\<close>

definition rotationSnapshot :: Snapshot where
  "rotationSnapshot = \<lparr>snapTimestamp = unixTime 1698314400, CPU = 50, CPUWait = 1, Memory = 70,
     Disks = fmupd ''sda'' \<lparr>Utilization = 20, Await = 10, IOPS = 150\<rparr> fmempty,
     Networks = fmupd ''eth0'' \<lparr>Bandwidth = 20000000\<rparr> fmempty\<rparr>"



section \<open>Properties of the delta engine\<close>
















text \<open>
  Claim C9.  When the previous snapshot's timestamp is the zero time (no prior sample),
  every function of the delta engine returns its baseline: 0 for the CPU utilization, the
  disk utilization, the disk await, the disk IOPS and the network bandwidth, and -1 for
  the CPU iowait.
\<close>

theorem C9_baseline_without_prior_sample:
  "(IsZero (cpuTimestamp cp) \<longrightarrow>
      CalculateCPUUtilization cp cc = 0 \<and> CalculateCPUIOWait cp cc = - 1)
   \<and> (IsZero (diskTimestamp dp) \<longrightarrow>
      CalculateDiskUtilization dp dc = 0 \<and> CalculateDiskAwait dp dc = 0
      \<and> CalculateDiskIOPS dp dc = 0)
   \<and> (IsZero (netTimestamp np) \<longrightarrow> CalculateNetworkBandwidth np nc = 0)"
  by (simp add: CalculateCPUUtilization_def CalculateCPUIOWait_def CalculateDiskUtilization_def
      CalculateDiskAwait_def CalculateDiskIOPS_def CalculateNetworkBandwidth_def)

theorem C9_baseline_without_prior_sample_witness:
  "IsZero (cpuTimestamp (normalUsagePrev 0)) \<and> IsZero (diskTimestamp (diskBusy 1000 0))
   \<and> IsZero (netTimestamp (netBytes 1000 1000 0))
   \<and> CalculateCPUUtilization (normalUsagePrev 0) (normalUsageCurrent 1000000000) = 0
   \<and> CalculateCPUIOWait (normalUsagePrev 0) (normalUsageCurrent 1000000000) = - 1
   \<and> CalculateDiskUtilization (diskBusy 1000 0) (diskBusy 2500 1000000000) = 0
   \<and> CalculateDiskAwait (diskBusy 1000 0) (diskBusy 2500 1000000000) = 0
   \<and> CalculateDiskIOPS (diskBusy 1000 0) (diskBusy 2500 1000000000) = 0
   \<and> CalculateNetworkBandwidth (netBytes 1000 1000 0) (netBytes 2000 2024 1000000000) = 0"
  using C9_baseline_without_prior_sample [of "normalUsagePrev 0" "normalUsageCurrent 1000000000"
      "diskBusy 1000 0" "diskBusy 2500 1000000000" "netBytes 1000 1000 0"
      "netBytes 2000 2024 1000000000"]
  by (simp add: normalUsagePrev_def diskBusy_def netBytes_def IsZero_def)



section \<open>Properties of the time-series store\<close>

lemma rawPoints_simps [simp]:
  "rawPoints [] = []"
  "rawPoints ((t, None) # zs) = rawPoints zs"
  "rawPoints ((t, Some v) # zs) = \<lparr>Timestamp = unixTime t, Value = v\<rparr> # rawPoints zs"
  "rawPoints (xs @ ys) = rawPoints xs @ rawPoints ys"
  by (simp_all add: rawPoints_def)

lemma searchLoop_stop: "\<not> i < j \<Longrightarrow> searchLoop f i j = i"
  by (subst searchLoop.simps) simp

lemma searchLoop_left:
  "i < j \<Longrightarrow> f ((i + j) div 2) \<Longrightarrow> searchLoop f i j = searchLoop f i ((i + j) div 2)"
  by (subst searchLoop.simps) (simp add: Let_def)

lemma searchLoop_right:
  "i < j \<Longrightarrow> \<not> f ((i + j) div 2) \<Longrightarrow> searchLoop f i j = searchLoop f ((i + j) div 2 + 1) j"
  by (subst searchLoop.simps) (simp add: Let_def)


lemma searchLoop_spec:
  assumes mono: "\<And>a b. a \<le> b \<Longrightarrow> b < n \<Longrightarrow> f a \<Longrightarrow> f b"
  shows "i \<le> j \<Longrightarrow> j \<le> n \<Longrightarrow> (\<forall>k<i. \<not> f k) \<Longrightarrow> (\<forall>k. j \<le> k \<and> k < n \<longrightarrow> f k) \<Longrightarrow>
         i \<le> searchLoop f i j \<and> searchLoop f i j \<le> j
         \<and> (\<forall>k. k < searchLoop f i j \<longrightarrow> \<not> f k)
         \<and> (\<forall>k. searchLoop f i j \<le> k \<and> k < n \<longrightarrow> f k)"
proof (induction "j - i" arbitrary: i j rule: less_induct)
  case less
  show ?case
  proof (cases "i < j")
    case False
    then have "searchLoop f i j = i" by (rule searchLoop_stop)
    moreover have "i = j" using False less.prems(1) by simp
    ultimately show ?thesis using less.prems by simp
  next
    case True
    define h where "h = (i + j) div 2"
    have hb: "i \<le> h" "h < j" using True unfolding h_def by arith+
    show ?thesis
    proof (cases "f h")
      case fh: True
      have up: "\<forall>k. h \<le> k \<and> k < n \<longrightarrow> f k"
        using fh mono by blast
      have eq: "searchLoop f i j = searchLoop f i h"
        unfolding h_def using True fh [unfolded h_def] by (rule searchLoop_left)
      have m: "h - i < j - i" using hb by simp
      have hn: "h \<le> n" using hb less.prems(2) by simp
      have "i \<le> searchLoop f i h \<and> searchLoop f i h \<le> h
         \<and> (\<forall>k. k < searchLoop f i h \<longrightarrow> \<not> f k)
         \<and> (\<forall>k. searchLoop f i h \<le> k \<and> k < n \<longrightarrow> f k)"
        using m hb(1) hn less.prems(3) up by (rule less.hyps)
      with eq hb show ?thesis by simp
    next
      case nfh: False
      have hn: "h < n" using hb less.prems(2) by simp
      have low: "\<forall>k<h + 1. \<not> f k"
      proof (intro allI impI)
        fix k assume "k < h + 1"
        then have "k \<le> h" by simp
        then show "\<not> f k" using nfh mono hn by blast
      qed
      have eq: "searchLoop f i j = searchLoop f (h + 1) j"
        unfolding h_def using True nfh [unfolded h_def] by (rule searchLoop_right)
      have m: "j - (h + 1) < j - i" using hb by simp
      have hj: "h + 1 \<le> j" using hb by simp
      have "h + 1 \<le> searchLoop f (h + 1) j \<and> searchLoop f (h + 1) j \<le> j
         \<and> (\<forall>k. k < searchLoop f (h + 1) j \<longrightarrow> \<not> f k)
         \<and> (\<forall>k. searchLoop f (h + 1) j \<le> k \<and> k < n \<longrightarrow> f k)"
        using m hj less.prems(2) low less.prems(4) by (rule less.hyps)
      with eq hb show ?thesis by simp
    qed
  qed
qed

lemma Search_spec:
  assumes "\<And>a b. a \<le> b \<Longrightarrow> b < n \<Longrightarrow> f a \<Longrightarrow> f b"
  shows "Search n f \<le> n \<and> (\<forall>k. k < Search n f \<longrightarrow> \<not> f k)
         \<and> (\<forall>k. Search n f \<le> k \<and> k < n \<longrightarrow> f k)"
proof -
  have "0 \<le> searchLoop f 0 n \<and> searchLoop f 0 n \<le> n
         \<and> (\<forall>k. k < searchLoop f 0 n \<longrightarrow> \<not> f k)
         \<and> (\<forall>k. searchLoop f 0 n \<le> k \<and> k < n \<longrightarrow> f k)"
    by (rule searchLoop_spec [OF assms]) auto
  then show ?thesis unfolding Search_def by blast
qed

lemma rawLoop_eq:
  "i \<le> e \<Longrightarrow> e \<le> length vals \<Longrightarrow> length ts = length vals \<Longrightarrow>
   rawLoop ts vals i e acc = Inr (acc @ rawPoints (take (e - i) (drop i (zip ts vals))))"
proof (induction ts vals i e acc rule: rawLoop.induct)
  case (1 ts vals i e acc)
  show ?case
  proof (cases "i < e")
    case False
    then show ?thesis by (simp add: rawLoop.simps [of ts vals i e acc])
  next
    case True
    then have il: "i < length vals" using "1.prems" by simp
    then have iz: "i < length (zip ts vals)" using "1.prems" by simp
    have step: "take (e - i) (drop i (zip ts vals))
                  = (ts ! i, vals ! i) # take (e - (i + 1)) (drop (i + 1) (zip ts vals))"
    proof -
      have "drop i (zip ts vals) = (zip ts vals) ! i # drop (Suc i) (zip ts vals)"
        using iz by (rule Cons_nth_drop_Suc [symmetric])
      moreover have "(zip ts vals) ! i = (ts ! i, vals ! i)"
        using iz by simp
      moreover have "e - i = Suc (e - (i + 1))" using True by simp
      ultimately show ?thesis by simp
    qed
    show ?thesis
    proof (cases "vals ! i")
      case None
      have "rawLoop ts vals i e acc = rawLoop ts vals (i + 1) e acc"
        using True il None by (simp add: rawLoop.simps [of ts vals i e acc])
      also have "\<dots> = Inr (acc @ rawPoints (take (e - (i + 1)) (drop (i + 1) (zip ts vals))))"
        using "1.IH"(1) [OF True il None] True "1.prems" by simp
      finally show ?thesis using None by (simp add: step)
    next
      case (Some v)
      have "rawLoop ts vals i e acc
              = rawLoop ts vals (i + 1) e (acc @ [\<lparr>Timestamp = unixTime (ts ! i), Value = v\<rparr>])"
        using True il Some by (simp add: rawLoop.simps [of ts vals i e acc])
      also have "\<dots> = Inr ((acc @ [\<lparr>Timestamp = unixTime (ts ! i), Value = v\<rparr>])
                  @ rawPoints (take (e - (i + 1)) (drop (i + 1) (zip ts vals))))"
        using "1.IH"(2) [OF True il Some] True "1.prems" by simp
      finally show ?thesis using Some by (simp add: step)
    qed
  qed
qed


lemma rawPoints_comprehension:
  "[\<lparr>Timestamp = unixTime t, Value = v\<rparr>. (t, Some v) \<leftarrow> zs, P t]
     = rawPoints (filter (\<lambda>(t, v). P t) zs)"
proof (induction zs)
  case Nil
  show ?case by simp
next
  case (Cons z zs)
  obtain t ov where z: "z = (t, ov)" by (cases z)
  show ?case using Cons by (cases ov) (simp_all add: z)
qed

lemma in_set_takeD:
  assumes "x \<in> set (take s zs)"
  shows "\<exists>k. k < s \<and> k < length zs \<and> x = zs ! k"
proof -
  from assms obtain k where "k < length (take s zs)" "take s zs ! k = x"
    by (auto simp: in_set_conv_nth)
  then show ?thesis by (intro exI [of _ k]) simp
qed

lemma in_set_dropD:
  assumes "x \<in> set (drop e zs)"
  shows "\<exists>k. e \<le> k \<and> k < length zs \<and> x = zs ! k"
proof -
  from assms obtain k where "k < length (drop e zs)" "drop e zs ! k = x"
    by (auto simp: in_set_conv_nth)
  then show ?thesis by (intro exI [of _ "e + k"]) auto
qed

lemma slice_split:
  assumes "s \<le> e" "e \<le> length zs"
  shows "zs = take s zs @ take (e - s) (drop s zs) @ drop e zs"
proof -
  have "drop s zs = take (e - s) (drop s zs) @ drop (e - s) (drop s zs)"
    by (rule append_take_drop_id [symmetric])
  moreover have "drop (e - s) (drop s zs) = drop e zs" using assms by simp
  moreover have "zs = take s zs @ drop s zs" by simp
  ultimately show ?thesis by metis
qed

lemma range_filter_slice:
  fixes zs :: "(int \<times> 'v) list"
  assumes s: "s \<le> length zs" "\<forall>k. k < s \<longrightarrow> \<not> lo (fst (zs ! k))"
             "\<forall>k. s \<le> k \<and> k < length zs \<longrightarrow> lo (fst (zs ! k))"
    and e: "e \<le> length zs" "\<forall>k. k < e \<longrightarrow> hi (fst (zs ! k))"
             "\<forall>k. e \<le> k \<and> k < length zs \<longrightarrow> \<not> hi (fst (zs ! k))"
  shows "filter (\<lambda>(t, v). lo t \<and> hi t) zs = (if s < e then take (e - s) (drop s zs) else [])"
proof (cases "s < e")
  case True
  let ?P = "\<lambda>(t, v). lo t \<and> hi t"
  have "\<And>x. x \<in> set (take s zs) \<Longrightarrow> \<not> ?P x"
  proof -
    fix x assume "x \<in> set (take s zs)"
    then obtain k where "k < s" "x = zs ! k" by (auto dest!: in_set_takeD)
    then have "\<not> lo (fst x)" using s(2) by simp
    then show "\<not> ?P x" by (cases x) simp
  qed
  then have a: "filter ?P (take s zs) = []"
    by (simp add: filter_empty_conv)
  have "\<And>x. x \<in> set (drop e zs) \<Longrightarrow> \<not> ?P x"
  proof -
    fix x assume "x \<in> set (drop e zs)"
    then obtain k where "e \<le> k" "k < length zs" "x = zs ! k" by (auto dest!: in_set_dropD)
    then have "\<not> hi (fst x)" using e(3) by simp
    then show "\<not> ?P x" by (cases x) simp
  qed
  then have c: "filter ?P (drop e zs) = []"
    by (simp add: filter_empty_conv)
  have b: "filter ?P (take (e - s) (drop s zs)) = take (e - s) (drop s zs)"
  proof (rule filter_True, rule ballI)
    fix x assume "x \<in> set (take (e - s) (drop s zs))"
    then obtain k where k: "k < e - s" "k < length (drop s zs)" "x = drop s zs ! k"
      by (auto dest!: in_set_takeD)
    then have "x = zs ! (s + k)" using s(1) by simp
    moreover have "s \<le> s + k" "s + k < length zs" "s + k < e" using k by auto
    ultimately have "lo (fst x)" "hi (fst x)" using s(3) e(2) by auto
    then show "?P x" by (cases x) simp
  qed
  have "filter ?P zs = filter ?P (take s zs @ take (e - s) (drop s zs) @ drop e zs)"
    using slice_split [of s e zs] True e(1) by simp
  then show ?thesis using a b c True by simp
next
  case False
  have none: "\<And>x. x \<in> set zs \<Longrightarrow> \<not> (lo (fst x) \<and> hi (fst x))"
  proof -
    fix x assume "x \<in> set zs"
    then obtain k where k: "k < length zs" "x = zs ! k" by (auto simp: in_set_conv_nth)
    show "\<not> (lo (fst x) \<and> hi (fst x))"
    proof (cases "k < s")
      case True
      then show ?thesis using s(2) k by simp
    next
      case F: False
      then have "e \<le> k" using False by simp
      then show ?thesis using e(3) k by simp
    qed
  qed
  have "\<And>x. x \<in> set zs \<Longrightarrow> \<not> (case x of (t, v) \<Rightarrow> lo t \<and> hi t)"
  proof -
    fix x :: "int \<times> 'v" assume "x \<in> set zs"
    then have "\<not> (lo (fst x) \<and> hi (fst x))" by (rule none)
    then show "\<not> (case x of (t, v) \<Rightarrow> lo t \<and> hi t)" by (cases x) simp
  qed
  then have "filter (\<lambda>(t, v). lo t \<and> hi t) zs = []"
    by (simp add: filter_empty_conv)
  then show ?thesis using False by simp
qed

lemma startIndex_props:
  assumes "sorted ts"
  shows "startIndex ts timeFrom \<le> length ts
       \<and> (\<forall>k. k < startIndex ts timeFrom \<longrightarrow> \<not> notBefore timeFrom (ts ! k))
       \<and> (\<forall>k. startIndex ts timeFrom \<le> k \<and> k < length ts \<longrightarrow> notBefore timeFrom (ts ! k))"
proof (cases timeFrom)
  case None
  then show ?thesis by (simp add: startIndex_def notBefore_def)
next
  case (Some tf)
  have mono: "\<And>a b. a \<le> b \<Longrightarrow> b < length ts \<Longrightarrow> Unix tf \<le> ts ! a \<Longrightarrow> Unix tf \<le> ts ! b"
  proof -
    fix a b assume "a \<le> b" "b < length ts" "Unix tf \<le> ts ! a"
    moreover from this assms have "ts ! a \<le> ts ! b" by (simp add: sorted_nth_mono)
    ultimately show "Unix tf \<le> ts ! b" by simp
  qed
  have eq: "startIndex ts timeFrom = Search (length ts) (\<lambda>i. Unix tf \<le> ts ! i)"
    using Some by (simp add: startIndex_def)
  have nb: "\<And>t. notBefore timeFrom t = (Unix tf \<le> t)"
    using Some by (simp add: notBefore_def)
  from Search_spec [of "length ts" "\<lambda>i. Unix tf \<le> ts ! i", OF mono]
  show ?thesis unfolding eq nb .
qed

lemma endIndex_props:
  assumes "sorted ts"
  shows "endIndex ts timeTo \<le> length ts
       \<and> (\<forall>k. k < endIndex ts timeTo \<longrightarrow> notAfter timeTo (ts ! k))
       \<and> (\<forall>k. endIndex ts timeTo \<le> k \<and> k < length ts \<longrightarrow> \<not> notAfter timeTo (ts ! k))"
proof (cases timeTo)
  case None
  then show ?thesis by (simp add: endIndex_def notAfter_def)
next
  case (Some tt)
  have mono: "\<And>a b. a \<le> b \<Longrightarrow> b < length ts \<Longrightarrow> Unix tt < ts ! a \<Longrightarrow> Unix tt < ts ! b"
  proof -
    fix a b assume "a \<le> b" "b < length ts" "Unix tt < ts ! a"
    moreover from this assms have "ts ! a \<le> ts ! b" by (simp add: sorted_nth_mono)
    ultimately show "Unix tt < ts ! b" by simp
  qed
  from Search_spec [of "length ts" "\<lambda>i. Unix tt < ts ! i", OF mono]
  have sp: "Search (length ts) (\<lambda>i. Unix tt < ts ! i) \<le> length ts
       \<and> (\<forall>k. k < Search (length ts) (\<lambda>i. Unix tt < ts ! i) \<longrightarrow> \<not> Unix tt < ts ! k)
       \<and> (\<forall>k. Search (length ts) (\<lambda>i. Unix tt < ts ! i) \<le> k \<and> k < length ts \<longrightarrow> Unix tt < ts ! k)" .
  then have "Search (length ts) (\<lambda>i. Unix tt < ts ! i) \<le> length ts" by (rule conjunct1)
  then have eq: "endIndex ts timeTo = Search (length ts) (\<lambda>i. Unix tt < ts ! i)"
    unfolding endIndex_def Let_def using Some by (cases "Search (length ts) (\<lambda>i. Unix tt < ts ! i) < length ts") simp_all
  have na: "\<And>t. notAfter timeTo t = (\<not> Unix tt < t)"
    using Some by (auto simp add: notAfter_def)
  from sp show ?thesis unfolding eq na by blast
qed

lemma filter_zip_fst:
  "length vals = length ts \<Longrightarrow> map fst (filter (\<lambda>(t, v). P t) (zip ts vals)) = filter P ts"
proof -
  assume l: "length vals = length ts"
  have "map fst (filter (\<lambda>(t, v). P t) (zip ts vals)) = filter P (map fst (zip ts vals))"
    by (simp add: filter_map comp_def case_prod_unfold)
  then show ?thesis using l by simp
qed

lemma selected_rows:
  assumes "sorted ts" "length vals = length ts"
  shows "filter (\<lambda>(t, v). inRange timeFrom timeTo t) (zip ts vals)
           = (if startIndex ts timeFrom < endIndex ts timeTo
              then take (endIndex ts timeTo - startIndex ts timeFrom)
                     (drop (startIndex ts timeFrom) (zip ts vals))
              else [])"
proof -
  let ?zs = "zip ts vals"
  have n: "length ?zs = length ts" using assms(2) by simp
  have nth: "\<And>k. k < length ts \<Longrightarrow> fst (?zs ! k) = ts ! k" using assms(2) by simp
  note sp = startIndex_props [OF assms(1), of timeFrom]
  note ep = endIndex_props [OF assms(1), of timeTo]
  have s1: "startIndex ts timeFrom \<le> length ?zs" using sp n by simp
  have s2: "\<forall>k. k < startIndex ts timeFrom \<longrightarrow> \<not> notBefore timeFrom (fst (?zs ! k))"
  proof (intro allI impI)
    fix k assume k: "k < startIndex ts timeFrom"
    then have "k < length ts" using sp by simp
    then show "\<not> notBefore timeFrom (fst (?zs ! k))" using sp k nth by simp
  qed
  have s3: "\<forall>k. startIndex ts timeFrom \<le> k \<and> k < length ?zs \<longrightarrow> notBefore timeFrom (fst (?zs ! k))"
  proof (intro allI impI)
    fix k assume k: "startIndex ts timeFrom \<le> k \<and> k < length ?zs"
    then have "k < length ts" using n by simp
    then show "notBefore timeFrom (fst (?zs ! k))" using sp k nth by simp
  qed
  have e1: "endIndex ts timeTo \<le> length ?zs" using ep n by simp
  have e2: "\<forall>k. k < endIndex ts timeTo \<longrightarrow> notAfter timeTo (fst (?zs ! k))"
  proof (intro allI impI)
    fix k assume k: "k < endIndex ts timeTo"
    then have "k < length ts" using ep by simp
    then show "notAfter timeTo (fst (?zs ! k))" using ep k nth by simp
  qed
  have e3: "\<forall>k. endIndex ts timeTo \<le> k \<and> k < length ?zs \<longrightarrow> \<not> notAfter timeTo (fst (?zs ! k))"
  proof (intro allI impI)
    fix k assume k: "endIndex ts timeTo \<le> k \<and> k < length ?zs"
    then have "k < length ts" using n by simp
    then show "\<not> notAfter timeTo (fst (?zs ! k))" using ep k nth by simp
  qed
  have "filter (\<lambda>(t, v). notBefore timeFrom t \<and> notAfter timeTo t) ?zs
           = (if startIndex ts timeFrom < endIndex ts timeTo
              then take (endIndex ts timeTo - startIndex ts timeFrom)
                     (drop (startIndex ts timeFrom) ?zs)
              else [])"
    using s1 s2 s3 e1 e2 e3 by (rule range_filter_slice)
  then show ?thesis by (simp add: inRange_def)
qed

lemma selected_count:
  assumes "sorted ts"
  shows "length (filter (inRange timeFrom timeTo) ts) = endIndex ts timeTo - startIndex ts timeFrom"
proof -
  have l: "length (replicate (length ts) ()) = length ts" by simp
  have "length (filter (inRange timeFrom timeTo) ts)
          = length (map fst (filter (\<lambda>(t, v). inRange timeFrom timeTo t) (zip ts (replicate (length ts) ()))))"
    using filter_zip_fst [OF l, of "inRange timeFrom timeTo"] by simp
  also have "\<dots> = length (filter (\<lambda>(t, v). inRange timeFrom timeTo t) (zip ts (replicate (length ts) ())))"
    by simp
  finally have c: "length (filter (inRange timeFrom timeTo) ts)
      = length (filter (\<lambda>(t, v). inRange timeFrom timeTo t) (zip ts (replicate (length ts) ())))" .
  have e: "endIndex ts timeTo \<le> length ts"
    using endIndex_props [OF assms, of timeTo] by simp
  show ?thesis
  proof (cases "startIndex ts timeFrom < endIndex ts timeTo")
    case True
    then show ?thesis using e by (simp add: c selected_rows [OF assms l])
  next
    case False
    then show ?thesis by (simp add: c selected_rows [OF assms l])
  qed
qed

lemma GetColumnData_found:
  assumes "fmlookup (columnData s) fileID = Some colsData"
    and "fmlookup (Values colsData) columnName = Some vals"
  shows "GetColumnData s fileID columnName timeFrom timeTo =
     (if startIndex (Timestamps colsData) timeFrom \<ge> endIndex (Timestamps colsData) timeTo then Inr []
      else if endIndex (Timestamps colsData) timeTo - startIndex (Timestamps colsData) timeFrom \<le> maxPoints
      then rawLoop (Timestamps colsData) vals (startIndex (Timestamps colsData) timeFrom)
             (endIndex (Timestamps colsData) timeTo) []
      else downsampleLoop (Timestamps colsData) vals (startIndex (Timestamps colsData) timeFrom)
             (endIndex (Timestamps colsData) timeTo)
             (real (endIndex (Timestamps colsData) timeTo - startIndex (Timestamps colsData) timeFrom)
                / real maxPoints) 0 [])"
  using assms by (simp add: GetColumnData_def Let_def)

lemma GetColumnData_raw:
  assumes cd: "fmlookup (columnData s) fileID = Some colsData"
    and col: "fmlookup (Values colsData) columnName = Some vals"
    and len: "length vals = length (Timestamps colsData)"
    and srt: "sorted (Timestamps colsData)"
    and cnt: "length (filter (inRange timeFrom timeTo) (Timestamps colsData)) \<le> maxPoints"
  shows "GetColumnData s fileID columnName timeFrom timeTo =
           Inr (rawPoints (filter (\<lambda>(t, v). inRange timeFrom timeTo t)
                            (zip (Timestamps colsData) vals)))"
proof -
  define ts where "ts = Timestamps colsData"
  define b where "b = startIndex ts timeFrom"
  define e where "e = endIndex ts timeTo"
  have rows: "filter (\<lambda>(t, v). inRange timeFrom timeTo t) (zip ts vals)
                = (if b < e then take (e - b) (drop b (zip ts vals)) else [])"
    unfolding b_def e_def using srt len unfolding ts_def [symmetric] by (rule selected_rows)
  have count: "e - b \<le> maxPoints"
    using cnt selected_count [OF srt, of timeFrom timeTo] by (simp add: b_def e_def ts_def)
  have eb: "e \<le> length vals"
    using endIndex_props [OF srt, of timeTo] len by (simp add: e_def ts_def)
  have code: "GetColumnData s fileID columnName timeFrom timeTo =
     (if b \<ge> e then Inr [] else rawLoop ts vals b e [])"
    using count by (simp add: GetColumnData_found [OF cd col] b_def e_def ts_def)
  show ?thesis
  proof (cases "b < e")
    case True
    then have "rawLoop ts vals b e [] = Inr ([] @ rawPoints (take (e - b) (drop b (zip ts vals))))"
      using eb len by (intro rawLoop_eq) (simp_all add: ts_def)
    then show ?thesis using True rows code by (simp add: ts_def)
  next
    case False
    then show ?thesis using rows code by (simp add: ts_def)
  qed
qed

lemma validValues_simps [simp]:
  "validValues [] = []"
  "validValues (None # xs) = validValues xs"
  "validValues (Some v # xs) = v # validValues xs"
  "validValues (xs @ ys) = validValues xs @ validValues ys"
  by (simp_all add: validValues_def)

lemma toInt_bucket: "toInt (real k * (real T / real maxPoints)) = (k * T) div maxPoints"
proof -
  have "real k * (real T / real maxPoints) = real (k * T) / real maxPoints" by simp
  then have "\<lfloor>real k * (real T / real maxPoints)\<rfloor> = int ((k * T) div maxPoints)"
    by (simp only: floor_divide_of_nat_eq)
  then show ?thesis by (simp add: toInt_def)
qed

lemma bucketLoop_stop: "\<not> j < pEnd \<Longrightarrow> bucketLoop vals j pEnd sm cnt = Inr (sm, cnt)"
  by (subst bucketLoop.simps) simp

lemma bucketLoop_step:
  "j < pEnd \<Longrightarrow> j < length vals \<Longrightarrow>
   bucketLoop vals j pEnd sm cnt =
     (case vals ! j of None \<Rightarrow> bucketLoop vals (j + 1) pEnd sm cnt
      | Some v \<Rightarrow> bucketLoop vals (j + 1) pEnd (sm + v) (cnt + 1))"
  by (subst bucketLoop.simps) simp

lemma bucketLoop_eq:
  "j \<le> pEnd \<Longrightarrow> pEnd \<le> length vals \<Longrightarrow>
   bucketLoop vals j pEnd sm cnt =
     Inr (sm + sum_list (validValues (take (pEnd - j) (drop j vals))),
          cnt + length (validValues (take (pEnd - j) (drop j vals))))"
proof (induction "pEnd - j" arbitrary: j sm cnt)
  case 0
  then have "\<not> j < pEnd" by simp
  then show ?case using 0 by (simp add: bucketLoop_stop)
next
  case (Suc d)
  then have lt: "j < pEnd" and jl: "j < length vals" by simp_all
  have d: "d = pEnd - (j + 1)" using Suc.hyps(2) by simp
  have le: "j + 1 \<le> pEnd" using lt by simp
  have step: "take (pEnd - j) (drop j vals) = vals ! j # take (pEnd - (j + 1)) (drop (j + 1) vals)"
  proof -
    have "drop j vals = vals ! j # drop (Suc j) vals"
      using jl by (rule Cons_nth_drop_Suc [symmetric])
    moreover have "pEnd - j = Suc (pEnd - (j + 1))" using lt by simp
    ultimately show ?thesis by simp
  qed
  show ?case
  proof (cases "vals ! j")
    case None
    have "bucketLoop vals j pEnd sm cnt = bucketLoop vals (j + 1) pEnd sm cnt"
      using lt jl None by (simp add: bucketLoop_step)
    also note Suc.hyps(1) [OF d le Suc.prems(2), of sm cnt]
    finally show ?thesis using None by (simp add: step)
  next
    case (Some v)
    have "bucketLoop vals j pEnd sm cnt = bucketLoop vals (j + 1) pEnd (sm + v) (cnt + 1)"
      using lt jl Some by (simp add: bucketLoop_step)
    also note Suc.hyps(1) [OF d le Suc.prems(2), of "sm + v" "cnt + 1"]
    finally show ?thesis using Some by (simp add: step)
  qed
qed

lemma bucket_bounds:
  assumes "maxPoints < T" "k < maxPoints"
  shows "bucketStart b T k < bucketStart b T (k + 1)"
    and "bucketStart b T (k + 1) \<le> b + T"
proof -
  have "(k * T) div maxPoints + 1 = (k * T + maxPoints) div maxPoints"
    by (simp add: maxPoints_def)
  also have "\<dots> \<le> ((k + 1) * T) div maxPoints"
    using assms(1) by (intro div_le_mono) (simp add: algebra_simps)
  finally show "bucketStart b T k < bucketStart b T (k + 1)"
    by (simp add: bucketStart_def)
  have "((k + 1) * T) div maxPoints \<le> (maxPoints * T) div maxPoints"
    using assms(2) by (intro div_le_mono mult_le_mono1) simp
  also have "\<dots> = T" by (simp add: maxPoints_def)
  finally show "bucketStart b T (k + 1) \<le> b + T"
    by (simp add: bucketStart_def)
qed


lemma downsampleLoop_stop:
  "\<not> i < maxPoints \<Longrightarrow> downsampleLoop ts vals b e bsz i acc = Inr acc"
  by (subst downsampleLoop.simps) simp

lemma downsampleLoop_step:
  assumes "i < maxPoints"
    and "b + toInt (real i * bsz) = pStart"
    and "b + toInt (real (i + 1) * bsz) = pEnd"
    and "pEnd \<le> e" "pStart < pEnd"
    and "bucketLoop vals pStart pEnd 0 0 = Inr (sm, cnt)"
  shows "downsampleLoop ts vals b e bsz i acc =
           downsampleLoop ts vals b e bsz (i + 1)
             (if cnt > 0 then acc @ [\<lparr>Timestamp = unixTime (ts ! pStart), Value = sm / real cnt\<rparr>]
              else acc)"
  using assms by (subst downsampleLoop.simps) (simp add: Let_def)

lemma downsampleLoop_eq:
  assumes T: "maxPoints < T" and e: "b + T \<le> length vals"
  shows "i \<le> maxPoints \<Longrightarrow>
         downsampleLoop ts vals b (b + T) (real T / real maxPoints) i acc =
           Inr (acc @ concat (map (bucketPoint ts vals b T) [i..<maxPoints]))"
proof (induction "maxPoints - i" arbitrary: i acc)
  case 0
  then have "\<not> i < maxPoints" by simp
  then show ?case using 0 by (simp add: downsampleLoop_stop)
next
  case (Suc d)
  then have lt: "i < maxPoints" by simp
  have d: "d = maxPoints - (i + 1)" using Suc.hyps(2) by simp
  have le: "i + 1 \<le> maxPoints" using lt by simp
  define pStart where "pStart = bucketStart b T i"
  define pEnd where "pEnd = bucketStart b T (i + 1)"
  define vs where "vs = bucketValues vals b T i"
  have ps: "b + toInt (real i * (real T / real maxPoints)) = pStart"
    by (simp only: toInt_bucket pStart_def bucketStart_def)
  have pe: "b + toInt (real (i + 1) * (real T / real maxPoints)) = pEnd"
    by (simp only: toInt_bucket pEnd_def bucketStart_def)
  have lt2: "pStart < pEnd" and le2: "pEnd \<le> b + T"
    unfolding pStart_def pEnd_def using T lt by (rule bucket_bounds)+
  have "bucketLoop vals pStart pEnd 0 0 =
          Inr (0 + sum_list (validValues (take (pEnd - pStart) (drop pStart vals))),
               0 + length (validValues (take (pEnd - pStart) (drop pStart vals))))"
    using lt2 le2 e by (intro bucketLoop_eq) simp_all
  then have bl: "bucketLoop vals pStart pEnd 0 0 = Inr (sum_list vs, length vs)"
    by (simp add: vs_def bucketValues_def pStart_def pEnd_def)
  have bp: "bucketPoint ts vals b T i =
              (if length vs > 0
               then [\<lparr>Timestamp = unixTime (ts ! pStart), Value = sum_list vs / real (length vs)\<rparr>]
               else [])"
    by (simp add: bucketPoint_def Let_def vs_def pStart_def)
  have "downsampleLoop ts vals b (b + T) (real T / real maxPoints) i acc =
          downsampleLoop ts vals b (b + T) (real T / real maxPoints) (i + 1)
            (if length vs > 0
             then acc @ [\<lparr>Timestamp = unixTime (ts ! pStart), Value = sum_list vs / real (length vs)\<rparr>]
             else acc)"
    using lt ps pe le2 lt2 bl by (rule downsampleLoop_step)
  also have "\<dots> = Inr ((if length vs > 0
             then acc @ [\<lparr>Timestamp = unixTime (ts ! pStart), Value = sum_list vs / real (length vs)\<rparr>]
             else acc) @ concat (map (bucketPoint ts vals b T) [i + 1..<maxPoints]))"
    using d le by (rule Suc.hyps(1))
  also have "\<dots> = Inr (acc @ concat (map (bucketPoint ts vals b T) [i..<maxPoints]))"
    using lt by (simp add: upt_conv_Cons bp)
  finally show ?case .
qed

lemma first_index_takeWhile:
  assumes "b \<le> length xs" "\<forall>k. k < b \<longrightarrow> P (xs ! k)" "\<forall>k. b \<le> k \<and> k < length xs \<longrightarrow> \<not> P (xs ! k)"
  shows "length (takeWhile P xs) = b"
proof -
  have "takeWhile P xs = take b xs"
    using assms by (intro takeWhile_eq_take_P_nth) auto
  then show ?thesis using assms(1) by simp
qed

lemma startIndex_first:
  assumes "sorted ts"
  shows "startIndex ts timeFrom = length (takeWhile (\<lambda>t. \<not> notBefore timeFrom t) ts)"
proof -
  note p = startIndex_props [OF assms, of timeFrom]
  show ?thesis
    by (rule first_index_takeWhile [symmetric]) (use p in blast)+
qed

lemma endIndex_first:
  assumes "sorted ts"
  shows "endIndex ts timeTo = length (takeWhile (notAfter timeTo) ts)"
proof -
  note p = endIndex_props [OF assms, of timeTo]
  show ?thesis
    by (rule first_index_takeWhile [symmetric]) (use p in blast)+
qed

lemma validValues_all:
  "(\<forall>x \<in> set xs. x \<noteq> None) \<Longrightarrow> length (validValues xs) = length xs"
  by (induction xs) auto

lemma rawPoints_all:
  "(\<forall>z \<in> set zs. snd z \<noteq> None) \<Longrightarrow> length (rawPoints zs) = length zs"
proof (induction zs)
  case Nil
  show ?case by simp
next
  case (Cons z zs)
  obtain t ov where z: "z = (t, ov)" by (cases z)
  with Cons show ?case by (cases ov) auto
qed

lemma slice_elements:
  assumes "x \<in> set (take m (drop p xs))"
  shows "\<exists>k. p \<le> k \<and> k < p + m \<and> k < length xs \<and> x = xs ! k"
proof -
  from assms obtain j where j: "j < m" "j < length (drop p xs)" "x = drop p xs ! j"
    by (auto dest!: in_set_takeD)
  then have "x = xs ! (p + j)" by simp
  with j show ?thesis by (intro exI [of _ "p + j"]) auto
qed

lemma bucketPoint_single:
  assumes T: "maxPoints < T" and k: "k < maxPoints" and e: "b + T \<le> length vals"
    and valid: "\<forall>j. b \<le> j \<and> j < b + T \<longrightarrow> vals ! j \<noteq> None"
  shows "length (bucketPoint ts vals b T k) = 1"
proof -
  define p where "p = bucketStart b T k"
  define q where "q = bucketStart b T (k + 1)"
  have pq: "p < q" "q \<le> b + T"
    unfolding p_def q_def using T k by (rule bucket_bounds)+
  have bp: "b \<le> p" by (simp add: p_def bucketStart_def)
  have "\<forall>x \<in> set (take (q - p) (drop p vals)). x \<noteq> None"
  proof
    fix x assume "x \<in> set (take (q - p) (drop p vals))"
    then obtain j where "p \<le> j" "j < p + (q - p)" "x = vals ! j"
      by (auto dest!: slice_elements)
    then show "x \<noteq> None" using valid bp pq by simp
  qed
  then have "length (validValues (take (q - p) (drop p vals))) = length (take (q - p) (drop p vals))"
    by (rule validValues_all)
  also have "\<dots> = q - p" using pq e by simp
  finally have "bucketValues vals b T k \<noteq> []"
    using pq by (auto simp: bucketValues_def p_def q_def)
  then show ?thesis by (simp add: bucketPoint_def Let_def)
qed

lemma length_concat_singletons:
  "(\<forall>x \<in> set xs. length (f x) = 1) \<Longrightarrow> length (concat (map f xs)) = length xs"
  by (induction xs) auto

lemma downsampled_count:
  assumes "maxPoints < T" "b + T \<le> length vals"
    and "\<forall>j. b \<le> j \<and> j < b + T \<longrightarrow> vals ! j \<noteq> None"
  shows "length (concat (map (bucketPoint ts vals b T) [0..<maxPoints])) = maxPoints"
proof -
  have "\<forall>k \<in> set [0..<maxPoints]. length (bucketPoint ts vals b T k) = 1"
    using assms by (simp add: bucketPoint_single)
  then have "length (concat (map (bucketPoint ts vals b T) [0..<maxPoints])) = length [0..<maxPoints]"
    by (rule length_concat_singletons)
  then show ?thesis by simp
qed

lemma endIndex_le: "endIndex ts timeTo \<le> length ts"
  by (cases timeTo) (simp_all add: endIndex_def Let_def)

lemma GetColumnData_downsampled:
  assumes cd: "fmlookup (columnData s) fileID = Some colsData"
    and col: "fmlookup (Values colsData) columnName = Some vals"
    and len: "length vals = length (Timestamps colsData)"
    and big: "maxPoints < endIndex (Timestamps colsData) timeTo - startIndex (Timestamps colsData) timeFrom"
  shows "GetColumnData s fileID columnName timeFrom timeTo =
           Inr (concat (map (bucketPoint (Timestamps colsData) vals
                               (startIndex (Timestamps colsData) timeFrom)
                               (endIndex (Timestamps colsData) timeTo
                                  - startIndex (Timestamps colsData) timeFrom))
                          [0..<maxPoints]))"
proof -
  define ts where "ts = Timestamps colsData"
  define b where "b = startIndex ts timeFrom"
  define T where "T = endIndex ts timeTo - b"
  have e: "endIndex ts timeTo = b + T" using big by (simp add: T_def b_def ts_def)
  have bT: "b + T \<le> length vals" using endIndex_le [of ts timeTo] len e by (simp add: ts_def)
  have T: "maxPoints < T" using big by (simp add: T_def b_def ts_def)
  have "GetColumnData s fileID columnName timeFrom timeTo =
          downsampleLoop ts vals b (b + T) (real T / real maxPoints) 0 []"
    using T e by (simp add: GetColumnData_found [OF cd col] ts_def [symmetric] b_def [symmetric])
  also have "\<dots> = Inr ([] @ concat (map (bucketPoint ts vals b T) [0..<maxPoints]))"
    using T bT by (rule downsampleLoop_eq) simp
  finally show ?thesis by (simp add: T_def b_def ts_def)
qed

lemma Unix_unixTime [simp]: "Unix (unixTime sec) = sec"
  by (simp add: Unix_def unixTime_def)

lemma le_div_iff_int:
  fixes u y c :: int
  assumes "0 < c"
  shows "u \<le> y div c \<longleftrightarrow> u * c \<le> y"
proof
  assume "u \<le> y div c"
  then have "u * c \<le> (y div c) * c" using assms by (simp add: mult_right_mono)
  also have "\<dots> \<le> y"
  proof -
    have "y div c * c + y mod c = y" by (rule div_mult_mod_eq)
    moreover have "0 \<le> y mod c" using assms by simp
    ultimately show ?thesis by linarith
  qed
  finally show "u * c \<le> y" .
next
  assume "u * c \<le> y"
  then have "(u * c) div c \<le> y div c" by (rule zdiv_mono1) (rule assms)
  then show "u \<le> y div c" using assms by simp
qed

lemma notAfter_exact: "notAfter (Some tt) t \<longleftrightarrow> unixTime t \<le> tt"
proof -
  have "t + unixToInternal \<le> tt div 1000000000 \<longleftrightarrow> (t + unixToInternal) * 1000000000 \<le> tt"
    by (rule le_div_iff_int) simp
  then show ?thesis by (simp add: notAfter_def Unix_def unixTime_def le_diff_eq)
qed

lemma inRange_whole_seconds:
  "inRange (Some (unixTime a)) (Some (unixTime c)) t \<longleftrightarrow> a \<le> t \<and> t \<le> c"
  by (simp add: inRange_def notBefore_def notAfter_def)

lemma GetColumnData_no_data:
  "fmlookup (columnData s) fileID = None \<Longrightarrow>
   GetColumnData s fileID columnName timeFrom timeTo = Inl (DataNotFound fileID)"
  by (simp add: GetColumnData_def)

lemma GetColumnData_unknown_file:
  assumes "storeInv s" "fmlookup (files s) fileID = None"
  shows "GetColumnData s fileID columnName timeFrom timeTo = Inl (DataNotFound fileID)"
proof -
  have "fileID |\<notin>| fmdom (files s)" using assms(2) by (simp add: fmdom_notI)
  then have "fileID |\<notin>| fmdom (columnData s)" using assms(1) by (auto simp: storeInv_def)
  then have "fmlookup (columnData s) fileID = None" by (simp add: fmdom_notD)
  then show ?thesis by (rule GetColumnData_no_data)
qed

lemma GetColumnData_unknown_column:
  "fmlookup (columnData s) fileID = Some colsData \<Longrightarrow>
   fmlookup (Values colsData) columnName = None \<Longrightarrow>
   GetColumnData s fileID columnName timeFrom timeTo = Inl (ColumnNotFound columnName)"
  by (simp add: GetColumnData_def)

lemma storeInv_New: "storeInv NewCSVDataService"
  by (simp add: storeInv_def NewCSVDataService_def)

lemma storeInv_RegisterFile: "storeInv s \<Longrightarrow> storeInv (RegisterFile s i n p)"
  by (auto simp: storeInv_def RegisterFile_def split: option.splits)

lemma storeInv_LoadFile: "storeInv s \<Longrightarrow> storeInv (snd (LoadFile env s i n p))"
  by (auto simp: storeInv_def LoadFile_def Let_def split: sum.splits prod.splits)

lemma storeInv_LoadFileContent: "storeInv s \<Longrightarrow> storeInv (snd (LoadFileContent env s i))"
  by (auto simp: storeInv_def LoadFileContent_def Let_def split: sum.splits prod.splits option.splits)

lemma storeInv_DeleteFile: "storeInv s \<Longrightarrow> storeInv (snd (DeleteFile s i))"
  by (auto simp: storeInv_def DeleteFile_def split: option.splits)

lemma storeInv_DeleteAll: "storeInv (DeleteAll s)"
  by (simp add: storeInv_def DeleteAll_def)

text \<open>
  Claim C3, as amended.  For a loaded file whose timestamps are in non-decreasing order and
  whose value column is as long as the timestamps, when the selected range holds at most
  2000 rows, \<open>GetColumnData\<close> returns exactly the (timestamp, value) pairs of the column
  whose value is not NaN and whose timestamp \<open>t\<close> (in whole seconds) satisfies
  \<open>Unix from \<le> t\<close> and \<open>t \<le> Unix to\<close>, in the order of the rows.  The lower bound is read
  in whole seconds (\<open>Unix\<close> rounds down); the upper bound is the same as \<open>t \<le> to\<close>; for
  bounds that are whole seconds, as stored timestamps are, the range is \<open>from \<le> t \<le> to\<close>,
  both ends included.  The result is the sub-range of rows from the first index whose
  timestamp is not before the lower bound up to, exclusively, the first index whose
  timestamp is after the upper bound.  A file id unknown to the store and a column name
  unknown to the file fail with an error.
\<close>

theorem C3_query_range:
  assumes cd: "fmlookup (columnData s) fileID = Some colsData"
    and col: "fmlookup (Values colsData) columnName = Some vals"
    and len: "length vals = length (Timestamps colsData)"
    and srt: "sorted (Timestamps colsData)"
    and cnt: "length (filter (inRange timeFrom timeTo) (Timestamps colsData)) \<le> maxPoints"
  shows "GetColumnData s fileID columnName timeFrom timeTo
           = Inr [\<lparr>Timestamp = unixTime t, Value = v\<rparr>.
                    (t, Some v) \<leftarrow> zip (Timestamps colsData) vals, inRange timeFrom timeTo t]
       \<and> GetColumnData s fileID columnName timeFrom timeTo
           = Inr (rawPoints
               (take (length (takeWhile (notAfter timeTo) (Timestamps colsData))
                        - length (takeWhile (\<lambda>t. \<not> notBefore timeFrom t) (Timestamps colsData)))
                  (drop (length (takeWhile (\<lambda>t. \<not> notBefore timeFrom t) (Timestamps colsData)))
                     (zip (Timestamps colsData) vals))))
       \<and> (inRange (Some (unixTime a)) (Some (unixTime c)) t \<longleftrightarrow> a \<le> t \<and> t \<le> c)
       \<and> (notBefore (Some tf) t \<longleftrightarrow> Unix tf \<le> t)
       \<and> (notAfter (Some tt) t \<longleftrightarrow> unixTime t \<le> tt)
       \<and> (storeInv s' \<and> fmlookup (files s') fileID' = None \<longrightarrow>
            GetColumnData s' fileID' columnName' timeFrom' timeTo' = Inl (DataNotFound fileID'))
       \<and> (fmlookup (Values colsData) columnName' = None \<longrightarrow>
            GetColumnData s fileID columnName' timeFrom' timeTo' = Inl (ColumnNotFound columnName'))"
proof -
  let ?ts = "Timestamps colsData"
  have raw: "GetColumnData s fileID columnName timeFrom timeTo
      = Inr (rawPoints (filter (\<lambda>(t, v). inRange timeFrom timeTo t) (zip ?ts vals)))"
    using cd col len srt cnt by (rule GetColumnData_raw)
  have exact: "GetColumnData s fileID columnName timeFrom timeTo
           = Inr [\<lparr>Timestamp = unixTime t, Value = v\<rparr>.
                    (t, Some v) \<leftarrow> zip ?ts vals, inRange timeFrom timeTo t]"
    by (simp only: raw rawPoints_comprehension)
  have "filter (\<lambda>(t, v). inRange timeFrom timeTo t) (zip ?ts vals)
          = take (endIndex ?ts timeTo - startIndex ?ts timeFrom)
              (drop (startIndex ?ts timeFrom) (zip ?ts vals))"
    by (simp add: selected_rows [OF srt len])
  then have slice: "GetColumnData s fileID columnName timeFrom timeTo
           = Inr (rawPoints
               (take (length (takeWhile (notAfter timeTo) ?ts)
                        - length (takeWhile (\<lambda>t. \<not> notBefore timeFrom t) ?ts))
                  (drop (length (takeWhile (\<lambda>t. \<not> notBefore timeFrom t) ?ts))
                     (zip ?ts vals))))"
    by (simp only: raw startIndex_first [OF srt] endIndex_first [OF srt])
  have whole: "inRange (Some (unixTime a)) (Some (unixTime c)) t \<longleftrightarrow> a \<le> t \<and> t \<le> c"
    by (rule inRange_whole_seconds)
  have lower: "notBefore (Some tf) t \<longleftrightarrow> Unix tf \<le> t"
    by (simp add: notBefore_def)
  have upper: "notAfter (Some tt) t \<longleftrightarrow> unixTime t \<le> tt"
    by (rule notAfter_exact)
  have nofile: "storeInv s' \<and> fmlookup (files s') fileID' = None \<longrightarrow>
            GetColumnData s' fileID' columnName' timeFrom' timeTo' = Inl (DataNotFound fileID')"
    using GetColumnData_unknown_file by blast
  have nocol: "fmlookup (Values colsData) columnName' = None \<longrightarrow>
            GetColumnData s fileID columnName' timeFrom' timeTo' = Inl (ColumnNotFound columnName')"
    using GetColumnData_unknown_column [OF cd] by blast
  from exact slice whole lower upper nofile nocol show ?thesis by blast
qed

lemma testStore_lookup:
  "fmlookup (columnData testStore) ''file1'' = Some testColumns"
  "fmlookup (Values testColumns) ''Memory'' = Some [Some 50, Some 51, Some 52, Some 53]"
  "Timestamps testColumns = [1698314400, 1698314401, 1698314402, 1698314403]"
  by (simp_all add: testStore_def testColumns_def)

theorem C3_query_range_witness:
  "fmlookup (columnData testStore) ''file1'' = Some testColumns
   \<and> sorted (Timestamps testColumns)
   \<and> GetColumnData testStore ''file1'' ''Memory''
         (Some (unixTime 1698314402)) (Some (unixTime 1698314403))
       = Inr [\<lparr>Timestamp = unixTime 1698314402, Value = 52\<rparr>,
              \<lparr>Timestamp = unixTime 1698314403, Value = 53\<rparr>]
   \<and> storeInv NewCSVDataService
   \<and> GetColumnData NewCSVDataService ''file1'' ''InvalidCol'' None None
       = Inl (DataNotFound ''file1'')
   \<and> GetColumnData testStore ''file1'' ''InvalidCol'' None None = Inl (ColumnNotFound ''InvalidCol'')"
proof -
  have cd: "fmlookup (columnData testStore) ''file1'' = Some testColumns"
    by (rule testStore_lookup)
  have col: "fmlookup (Values testColumns) ''Memory'' = Some [Some 50, Some 51, Some 52, Some 53]"
    by (rule testStore_lookup)
  have len: "length [Some 50, Some 51, Some 52, Some (53::real)] = length (Timestamps testColumns)"
    by (simp add: testStore_lookup)
  have srt: "sorted (Timestamps testColumns)"
    by (simp add: testStore_lookup)
  have cnt: "length (filter (inRange (Some (unixTime 1698314402)) (Some (unixTime 1698314403)))
               (Timestamps testColumns)) \<le> maxPoints"
    by (simp add: testStore_lookup maxPoints_def)
  have inv: "storeInv NewCSVDataService"
    by (rule storeInv_New)
  have nofile: "fmlookup (files NewCSVDataService) ''file1'' = None"
    by (simp add: NewCSVDataService_def)
  have nocol: "fmlookup (Values testColumns) ''InvalidCol'' = None"
    by (simp add: testColumns_def)
  note th = C3_query_range [OF cd col len srt cnt, where s' = NewCSVDataService
      and fileID' = "''file1''" and columnName' = "''InvalidCol''" and timeFrom' = None
      and timeTo' = None]
  have "GetColumnData testStore ''file1'' ''Memory''
         (Some (unixTime 1698314402)) (Some (unixTime 1698314403))
       = Inr [\<lparr>Timestamp = unixTime t, Value = v\<rparr>.
                (t, Some v) \<leftarrow> zip (Timestamps testColumns) [Some 50, Some 51, Some 52, Some 53],
                inRange (Some (unixTime 1698314402)) (Some (unixTime 1698314403)) t]"
    using th by (rule conjunct1)
  then have r1: "GetColumnData testStore ''file1'' ''Memory''
         (Some (unixTime 1698314402)) (Some (unixTime 1698314403))
       = Inr [\<lparr>Timestamp = unixTime 1698314402, Value = 52\<rparr>,
              \<lparr>Timestamp = unixTime 1698314403, Value = 53\<rparr>]"
    by (simp add: testStore_lookup(3) inRange_whole_seconds)
  have r2: "GetColumnData NewCSVDataService ''file1'' ''InvalidCol'' None None
       = Inl (DataNotFound ''file1'')"
    using th inv nofile by blast
  have r3: "GetColumnData testStore ''file1'' ''InvalidCol'' None None
       = Inl (ColumnNotFound ''InvalidCol'')"
    using th nocol by blast
  from cd srt r1 inv r2 r3 show ?thesis by blast
qed

lemma largeStore_lookup:
  "fmlookup (columnData (largeStore n)) ''large'' = Some (largeColumns n)"
  "fmlookup (Values (largeColumns n)) ''Val'' = Some (largeValues n)"
  "Timestamps (largeColumns n) = largeTimestamps n"
  "length (largeValues n) = n" "length (largeTimestamps n) = n"
  by (simp_all add: largeStore_def largeColumns_def largeValues_def largeTimestamps_def)

lemma largeValues_valid: "j < n \<Longrightarrow> largeValues n ! j \<noteq> None"
  by (simp add: largeValues_def)

lemma full_range_indices:
  "startIndex ts None = 0" "endIndex ts None = length ts"
  by (simp_all add: startIndex_def endIndex_def)

lemma largeStore_downsampled:
  assumes "maxPoints < n"
  shows "GetColumnData (largeStore n) ''large'' ''Val'' None None =
           Inr (concat (map (bucketPoint (largeTimestamps n) (largeValues n) 0 n) [0..<maxPoints]))"
    and "length (concat (map (bucketPoint (largeTimestamps n) (largeValues n) 0 n) [0..<maxPoints]))
           = maxPoints"
proof -
  have big: "maxPoints < endIndex (Timestamps (largeColumns n)) None
                          - startIndex (Timestamps (largeColumns n)) None"
    using assms by (simp add: full_range_indices largeStore_lookup)
  have len: "length (largeValues n) = length (Timestamps (largeColumns n))"
    by (simp add: largeStore_lookup)
  from GetColumnData_downsampled [OF largeStore_lookup(1) largeStore_lookup(2) len big]
  show "GetColumnData (largeStore n) ''large'' ''Val'' None None =
           Inr (concat (map (bucketPoint (largeTimestamps n) (largeValues n) 0 n) [0..<maxPoints]))"
    by (simp add: full_range_indices largeStore_lookup)
  show "length (concat (map (bucketPoint (largeTimestamps n) (largeValues n) 0 n) [0..<maxPoints]))
           = maxPoints"
    using assms by (intro downsampled_count) (simp_all add: largeStore_lookup largeValues_valid)
qed

lemma rawPoints_large: "length (rawPoints (zip (largeTimestamps n) (largeValues n))) = n"
proof -
  have "\<forall>z \<in> set (zip (largeTimestamps n) (largeValues n)). snd z \<noteq> None"
    by (auto simp: largeValues_def dest!: set_zip_rightD)
  then have "length (rawPoints (zip (largeTimestamps n) (largeValues n)))
               = length (zip (largeTimestamps n) (largeValues n))"
    by (rule rawPoints_all)
  then show ?thesis by (simp add: largeStore_lookup)
qed

text \<open>
  Claim C3 as stated fails in two ways.  A lower bound with a fraction of a second is read
  in whole seconds: on the test's file a query from 10:00:02.5 returns the row of 10:00:02,
  which is before the bound.  And a range of more than 2000 rows is downsampled: a
  full-range query over 2001 rows without NaN does not return the 2001 pairs.
\<close>

theorem C3_query_range_counterexample:
  "GetColumnData testStore ''file1'' ''Memory'' (Some (unixTime 1698314402 + 500000000)) None
     = Inr [\<lparr>Timestamp = unixTime 1698314402, Value = 52\<rparr>,
            \<lparr>Timestamp = unixTime 1698314403, Value = 53\<rparr>]
   \<and> unixTime 1698314402 < unixTime 1698314402 + 500000000
   \<and> GetColumnData (largeStore 2001) ''large'' ''Val'' None None
       \<noteq> Inr (rawPoints (zip (largeTimestamps 2001) (largeValues 2001)))"
proof -
  have half: "Unix (unixTime 1698314402 + 500000000) = 1698314402"
    by (simp add: Unix_def unixTime_def unixToInternal_def)
  have rng: "\<And>t. inRange (Some (unixTime 1698314402 + 500000000)) None t \<longleftrightarrow> 1698314402 \<le> t"
    by (simp add: inRange_def notBefore_def notAfter_def half)
  have len: "length [Some 50, Some 51, Some 52, Some (53::real)] = length (Timestamps testColumns)"
    by (simp add: testStore_lookup)
  have srt: "sorted (Timestamps testColumns)"
    by (simp add: testStore_lookup)
  have cnt: "length (filter (inRange (Some (unixTime 1698314402 + 500000000)) None)
               (Timestamps testColumns)) \<le> maxPoints"
    by (simp add: testStore_lookup maxPoints_def)
  have "GetColumnData testStore ''file1'' ''Memory'' (Some (unixTime 1698314402 + 500000000)) None
     = Inr (rawPoints (filter (\<lambda>(t, v). inRange (Some (unixTime 1698314402 + 500000000)) None t)
              (zip (Timestamps testColumns) [Some 50, Some 51, Some 52, Some 53])))"
    using testStore_lookup(1) testStore_lookup(2) len srt cnt by (rule GetColumnData_raw)
  then have a: "GetColumnData testStore ''file1'' ''Memory''
       (Some (unixTime 1698314402 + 500000000)) None
     = Inr [\<lparr>Timestamp = unixTime 1698314402, Value = 52\<rparr>,
            \<lparr>Timestamp = unixTime 1698314403, Value = 53\<rparr>]"
    by (simp add: testStore_lookup(3) rng)
  have b: "unixTime 1698314402 < unixTime 1698314402 + 500000000" by simp
  have big: "maxPoints < 2001" by (simp add: maxPoints_def)
  have "length (concat (map (bucketPoint (largeTimestamps 2001) (largeValues 2001) 0 2001)
          [0..<maxPoints])) \<noteq> length (rawPoints (zip (largeTimestamps 2001) (largeValues 2001)))"
    by (simp only: largeStore_downsampled(2) [OF big] rawPoints_large) (simp add: maxPoints_def)
  then have c: "GetColumnData (largeStore 2001) ''large'' ''Val'' None None
       \<noteq> Inr (rawPoints (zip (largeTimestamps 2001) (largeValues 2001)))"
    unfolding largeStore_downsampled(1) [OF big] by auto
  from a b c show ?thesis by (intro conjI)
qed




section \<open>Capacity and deletion\<close>

lemma dom_RegisterFile: "fmdom (files (RegisterFile s i n p)) = finsert i (fmdom (files s))"
  by (auto simp: RegisterFile_def split: option.splits dest: fmdomI)

lemma isLoadedEntry_RegisterFile: "isLoadedEntry (RegisterFile s i n p) k = isLoadedEntry s k"
  by (auto simp: isLoadedEntry_def RegisterFile_def split: option.splits)

lemma dom_fold_RegisterFile:
  "fmdom (files (fold (\<lambda>ident s. RegisterFile s ident (f ident) (g ident)) ids s))
     = fset_of_list ids |\<union>| fmdom (files s)"
  by (induction ids arbitrary: s) (auto simp: dom_RegisterFile)

lemma isLoadedEntry_fold_RegisterFile:
  "isLoadedEntry (fold (\<lambda>ident s. RegisterFile s ident (f ident) (g ident)) ids s) k
     = isLoadedEntry s k"
  by (induction ids arbitrary: s) (simp_all add: isLoadedEntry_RegisterFile)

lemma registerAll_none_loaded: "\<not> isLoadedEntry (registerAll ids) k"
proof -
  have "isLoadedEntry (registerAll ids) k = isLoadedEntry NewCSVDataService k"
    unfolding registerAll_def by (rule isLoadedEntry_fold_RegisterFile)
  then show ?thesis by (simp add: isLoadedEntry_def NewCSVDataService_def)
qed

lemma registerAll_loadedCount: "loadedCount (registerAll ids) = 0"
proof -
  have "ffilter (isLoadedEntry (registerAll ids)) (fmdom (files (registerAll ids))) = {||}"
    by (auto simp: registerAll_none_loaded)
  then show ?thesis by (simp add: loadedCount_def)
qed

lemma registerAll_twenty: "fcard (fmdom (files (registerAll twentyIds))) = 20"
  unfolding registerAll_def dom_fold_RegisterFile
  by (simp add: twentyIds_def NewCSVDataService_def fcard_finsert_if)

lemma path_RegisterFile:
  assumes "\<forall>k f. fmlookup (files s) k = Some f \<longrightarrow> Path f = g k"
  shows "\<forall>k f. fmlookup (files (RegisterFile s i n (g i))) k = Some f \<longrightarrow> Path f = g k"
proof (cases "fmlookup (files s) i")
  case (Some f0)
  then have "RegisterFile s i n (g i) = s" by (simp add: RegisterFile_def)
  then show ?thesis using assms by simp
next
  case None
  show ?thesis
  proof (intro allI impI)
    fix k f
    assume l: "fmlookup (files (RegisterFile s i n (g i))) k = Some f"
    show "Path f = g k"
    proof (cases "k = i")
      case True
      then show ?thesis using l None by (auto simp: RegisterFile_def)
    next
      case False
      then have "fmlookup (files s) k = Some f" using l None by (simp add: RegisterFile_def)
      then show ?thesis using assms by blast
    qed
  qed
qed

lemma path_fold_RegisterFile:
  "\<forall>k f. fmlookup (files s) k = Some f \<longrightarrow> Path f = g k \<Longrightarrow>
   \<forall>k f. fmlookup (files (fold (\<lambda>ident s. RegisterFile s ident (h ident) (g ident)) ids s)) k
            = Some f \<longrightarrow> Path f = g k"
proof (induction ids arbitrary: s)
  case Nil
  then show ?case by simp
next
  case (Cons i ids)
  have step: "\<forall>k f. fmlookup (files (RegisterFile s i (h i) (g i))) k = Some f \<longrightarrow> Path f = g k"
    using Cons.prems by (rule path_RegisterFile)
  have "\<forall>k f. fmlookup (files (fold (\<lambda>ident s. RegisterFile s ident (h ident) (g ident)) ids
                   (RegisterFile s i (h i) (g i)))) k = Some f \<longrightarrow> Path f = g k"
    using step by (rule Cons.IH)
  then show ?case by (simp only: fold_simps)
qed

lemma registerAll_entry:
  assumes "k \<in> set ids"
  shows "\<exists>f. fmlookup (files (registerAll ids)) k = Some f \<and> \<not> IsLoaded f
             \<and> Path f = ''uploads/'' @ k"
proof -
  have "k |\<in>| fmdom (files (registerAll ids))"
    using assms by (simp add: registerAll_def dom_fold_RegisterFile fset_of_list_elem)
  then obtain f where f: "fmlookup (files (registerAll ids)) k = Some f"
    by (auto simp: fmlookup_dom_iff)
  moreover have "\<not> isLoadedEntry (registerAll ids) k" by (rule registerAll_none_loaded)
  moreover have "\<forall>k f. fmlookup (files (registerAll ids)) k = Some f
                   \<longrightarrow> Path f = ''uploads/'' @ k"
    unfolding registerAll_def
    by (rule path_fold_RegisterFile) (simp add: NewCSVDataService_def)
  ultimately show ?thesis by (auto simp: isLoadedEntry_def)
qed

text \<open>
  \<open>processCSVFile\<close> appends one value to every column for each row it keeps.  When the
  header names after the first are pairwise different, every stored column is therefore as
  long as the timestamp array, which is what \<open>GetColumnData\<close> relies on when it
  indexes a column by positions of the timestamp array.
\<close>

lemma tl_as_nths: "map ((!) xs) [1..<length xs] = tl xs"
  by (rule nth_equalityI) (simp_all add: nth_tl)

lemma length_appendCells:
  "distinct (map ((!) header) js) \<Longrightarrow>
   length (colValues (fold (appendCell env header rec) js cols) c)
     = length (colValues cols c) + (if c \<in> set (map ((!) header) js) then 1 else 0)"
proof (induction js arbitrary: cols)
  case Nil
  then show ?case by simp
next
  case (Cons j js)
  have d: "distinct (map ((!) header) js)" and n: "header ! j \<notin> set (map ((!) header) js)"
    using Cons.prems by simp_all
  have one: "length (colValues (appendCell env header rec j cols) c)
               = length (colValues cols c) + (if c = header ! j then 1 else 0)"
    by (simp add: appendCell_def colValues_def Let_def)
  show ?case
    using Cons.IH [OF d, of "appendCell env header rec j cols"] one n by auto
qed

lemma length_row_cells:
  assumes "distinct (tl header)" "c \<in> set (tl header)"
  shows "length (colValues (fold (appendCell env header rec) [1..<length header] cols) c)
           = length (colValues cols c) + 1"
  using length_appendCells [of header "[1..<length header]" env rec cols c] assms
  by (simp only: tl_as_nths) simp

lemma readRows_aligned:
  assumes "readRows env header reads st = Inr st'" "distinct (tl header)"
    and "\<forall>c \<in> set (tl header). length (colValues (valueCols st) c) = length (timestamps st)"
  shows "\<forall>c \<in> set (tl header). length (colValues (valueCols st') c) = length (timestamps st')"
  using assms
proof (induction env header reads st rule: readRows.induct)
  case (1 env header st)
  then show ?case by simp
next
  case (2 env header err reads st)
  then show ?case by simp
next
  case (3 env header rec reads st)
  let ?t = "parseTimestamp env (rec ! 0)"
  let ?st = "\<lparr>timestamps = timestamps st @ [Unix ?t],
              valueCols = fold (appendCell env header rec) [1..<length header] (valueCols st),
              rowCount = rowCount st + 1,
              minTime = (if rowCount st = 0 then ?t else if ?t < minTime st then ?t else minTime st),
              maxTime = (if rowCount st = 0 then ?t else if ?t > maxTime st then ?t else maxTime st)\<rparr>"
  have g: "length rec = length header" "\<not> rowCount st \<ge> MaxRowsPerFile"
    using "3.prems"(1) by (auto split: if_splits)
  show ?case
  proof (cases "IsZero ?t")
    case True
    then have "readRows env header reads st = Inr st'"
      using "3.prems"(1) g by (simp add: Let_def)
    then show ?thesis using "3.IH"(1) g True "3.prems"(2,3) by simp
  next
    case False
    then have r: "readRows env header reads ?st = Inr st'"
      using "3.prems"(1) g by (simp add: Let_def)
    have a: "\<forall>c \<in> set (tl header). length (colValues (valueCols ?st) c) = length (timestamps ?st)"
    proof (intro ballI)
      fix c
      assume c: "c \<in> set (tl header)"
      have "length (colValues (fold (appendCell env header rec) [1..<length header] (valueCols st)) c)
              = length (colValues (valueCols st) c) + 1"
        using "3.prems"(2) c by (rule length_row_cells)
      then show "length (colValues (valueCols ?st) c) = length (timestamps ?st)"
        using "3.prems"(3) c by simp
    qed
    show ?thesis using "3.IH"(2) [OF _ _ refl False r "3.prems"(2) a] g by simp
  qed
qed

lemma init_cols_empty:
  "\<forall>c. colValues cols c = [] \<Longrightarrow>
   colValues (fold (\<lambda>i cols. fmupd (header ! i) [] cols) js cols) c = []"
proof (induction js arbitrary: cols)
  case Nil
  then show ?case by simp
next
  case (Cons j js)
  have "\<forall>c. colValues (fmupd (header ! j) [] cols) c = []"
    using Cons.prems by (simp add: colValues_def)
  then show ?case using Cons.IH by simp
qed

lemma processCSVFile_aligned:
  assumes "processCSVFile env ident name path = Inr (cd, f)" "distinct (tl (Columns f))"
    and "fmlookup (Values cd) column = Some vals" "column \<in> set (tl (Columns f))"
  shows "length vals = length (Timestamps cd)"
proof -
  obtain header reads where h: "csvReads (disk env path) = Inr header # reads"
    using assms(1) unfolding processCSVFile_def Let_def
    by (auto split: if_splits list.splits sum.splits)
  let ?init = "\<lparr>timestamps = [],
                 valueCols = fold (\<lambda>i cols. fmupd (header ! i) [] cols) [1..<length header] fmempty,
                 rowCount = 0, minTime = 0, maxTime = 0\<rparr>"
  obtain st where st: "readRows env header reads ?init = Inr st"
    and cd: "cd = \<lparr>Timestamps = timestamps st, Values = valueCols st\<rparr>"
    and cols: "Columns f = header"
    using assms(1) h unfolding processCSVFile_def Let_def
    by (auto split: if_splits sum.splits)
  have "\<forall>c. colValues (valueCols ?init) c = []"
    using init_cols_empty [of fmempty header "[1..<length header]"]
    by (simp add: colValues_def)
  then have a: "\<forall>c \<in> set (tl header). length (colValues (valueCols ?init) c) = length (timestamps ?init)"
    by simp
  have "\<forall>c \<in> set (tl header). length (colValues (valueCols st) c) = length (timestamps st)"
    using readRows_aligned [OF st _ a] assms(2) cols by simp
  then show ?thesis using assms(3,4) cd cols by (auto simp: colValues_def)
qed

lemma dummy_file: "path = ''dummy.csv'' \<or> path = ''uploads/a'' \<Longrightarrow> disk dummyEnv path = dummyFile"
  by (auto simp: dummyEnv_def)

lemma dummy_time:
  "parseTimestamp dummyEnv ''2023-01-01 00:00:00'' = unixTime 1672531200"
  by (simp add: parseTimestamp_def timeFormats_def dummyEnv_def)

lemma dummy_cell: "parseCell dummyEnv ''1'' = Some 1"
  by (simp add: parseCell_def dummyEnv_def Let_def)

lemma one_column: "[1..<length [''Timestamp'', ''Val'']] = [1]"
  by (simp add: upt_rec)

lemma dummy_rows:
  "readRows dummyEnv [''Timestamp'', ''Val''] [Inr [''2023-01-01 00:00:00'', ''1'']]
     \<lparr>timestamps = [], valueCols = fmupd ''Val'' [] fmempty, rowCount = 0, minTime = 0,
      maxTime = 0\<rparr>
   = Inr \<lparr>timestamps = [1672531200], valueCols = fmupd ''Val'' [Some 1] fmempty, rowCount = 1,
          minTime = unixTime 1672531200, maxTime = unixTime 1672531200\<rparr>"
proof -
  have nz: "\<not> IsZero (unixTime 1672531200)"
    by (simp add: IsZero_def unixTime_def unixToInternal_def)
  have ux: "Unix (unixTime 1672531200) = 1672531200"
    by (simp add: Unix_def unixTime_def)
  have cell: "fold (appendCell dummyEnv [''Timestamp'', ''Val''] [''2023-01-01 00:00:00'', ''1''])
                [1..<length [''Timestamp'', ''Val'']] (fmupd ''Val'' [] fmempty)
              = fmupd ''Val'' [Some 1] fmempty"
    by (simp only: one_column) (simp add: appendCell_def colValues_def dummy_cell Let_def)
  have t: "parseTimestamp dummyEnv ([''2023-01-01 00:00:00'', ''1''] ! 0) = unixTime 1672531200"
    by (simp add: dummy_time)
  show ?thesis
    by (simp only: readRows.simps t Let_def ParseState.simps cell)
       (simp add: MaxRowsPerFile_def nz ux)
qed

lemma dummy_processed:
  assumes "path = ''dummy.csv'' \<or> path = ''uploads/a''"
  shows "processCSVFile dummyEnv ident name path =
     Inr (\<lparr>Timestamps = [1672531200], Values = fmupd ''Val'' [Some 1] fmempty\<rparr>,
          \<lparr>ID = ident, Name = name, Path = path, Columns = [''Timestamp'', ''Val''],
           RowCount = 1, MinTime = unixTime 1672531200, MaxTime = unixTime 1672531200,
           IsLoaded = False\<rparr>)"
proof -
  have init: "fold (\<lambda>i cols. fmupd ([''Timestamp'', ''Val''] ! i) [] cols)
                [1..<length [''Timestamp'', ''Val'']] fmempty = fmupd ''Val'' [] fmempty"
    by (simp only: one_column) simp
  show ?thesis
    unfolding processCSVFile_def dummy_file [OF assms] Let_def
    by (simp add: dummyFile_def MaxFileSize_def init dummy_rows del: readRows.simps)
qed

text \<open>
  Claim C5 at its failing input.  The store holds twenty registered entries, none of them
  loaded.  \<open>LoadFile\<close> of a new, well-formed file is refused with the ``maximum number of
  files'' error, because its first check counts every entry of the file map; on the same
  store \<open>LoadFileContent\<close>, which counts the loaded entries, succeeds.
\<close>

theorem C5_LoadFile_counts_unloaded_entries:
  "loadedCount (registerAll twentyIds) = 0
   \<and> LoadFile dummyEnv (registerAll twentyIds) ''overflow'' ''overflow'' ''dummy.csv''
       = (Some MaxFilesReached, registerAll twentyIds)
   \<and> errorText MaxFilesReached
       = ''maximum number of files reached (20), please delete some files first''
   \<and> fst (LoadFileContent dummyEnv (registerAll twentyIds) ''a'') = None"
proof -
  have a: "loadedCount (registerAll twentyIds) = 0" by (rule registerAll_loadedCount)
  have b: "LoadFile dummyEnv (registerAll twentyIds) ''overflow'' ''overflow'' ''dummy.csv''
       = (Some MaxFilesReached, registerAll twentyIds)"
    by (simp add: LoadFile_def registerAll_twenty MaxFiles_def)
  have "''a'' \<in> set twentyIds" by (simp add: twentyIds_def)
  then obtain f where "fmlookup (files (registerAll twentyIds)) ''a'' = Some f" "\<not> IsLoaded f"
    "Path f = ''uploads/a''"
    using registerAll_entry by fastforce
  then have c: "fst (LoadFileContent dummyEnv (registerAll twentyIds) ''a'') = None"
    by (simp add: LoadFileContent_def a MaxFiles_def dummy_processed)
  from a b c show ?thesis by simp
qed

text \<open>
  Claim C6 as stated fails: deleting an id that the store does not hold is an error of
  \<open>DeleteFile\<close> (``file not found'').
\<close>

theorem C6_delete_counterexample:
  "GetFile NewCSVDataService ''missing'' = None
   \<and> fst (DeleteFile NewCSVDataService ''missing'') = Some (FileNotFound ''missing'')
   \<and> errorText (FileNotFound ''missing'') = ''file not found: missing''"
  by (simp add: GetFile_def DeleteFile_def NewCSVDataService_def)

text \<open>
  Claim C6, as amended.  For an id that the store does not hold, \<open>DeleteFile\<close> returns the
  error ``file not found'' and leaves the store as it was (so deleting twice leaves the
  same store as deleting once).  For an id that the store holds, \<open>DeleteFile\<close> returns no
  error and removes the metadata entry and the column data of that id, and of no other.
\<close>

theorem C6_delete:
  "(fmlookup (files s) ident = None \<longrightarrow>
      DeleteFile s ident = (Some (FileNotFound ident), s))
   \<and> (fmlookup (files s) ident \<noteq> None \<longrightarrow>
      fst (DeleteFile s ident) = None
      \<and> fmlookup (files (snd (DeleteFile s ident))) ident = None
      \<and> fmlookup (columnData (snd (DeleteFile s ident))) ident = None
      \<and> (\<forall>other. other \<noteq> ident \<longrightarrow>
            fmlookup (files (snd (DeleteFile s ident))) other = fmlookup (files s) other
          \<and> fmlookup (columnData (snd (DeleteFile s ident))) other
              = fmlookup (columnData s) other))
   \<and> snd (DeleteFile (snd (DeleteFile s ident)) ident) = snd (DeleteFile s ident)"
  by (auto simp: DeleteFile_def split: option.splits)

theorem C6_delete_witness:
  "fmlookup (files NewCSVDataService) ''file1'' = None
   \<and> DeleteFile NewCSVDataService ''file1'' = (Some (FileNotFound ''file1''), NewCSVDataService)
   \<and> fmlookup (files testStore) ''file1'' \<noteq> None
   \<and> fst (DeleteFile testStore ''file1'') = None
   \<and> GetFile (snd (DeleteFile testStore ''file1'')) ''file1'' = None
   \<and> fmlookup (columnData (snd (DeleteFile testStore ''file1''))) ''file1'' = None"
proof -
  have a: "fmlookup (files NewCSVDataService) ''file1'' = None"
    by (simp add: NewCSVDataService_def)
  have b: "fmlookup (files testStore) ''file1'' \<noteq> None"
    by (simp add: testStore_def)
  from a b C6_delete [of NewCSVDataService "''file1''"] C6_delete [of testStore "''file1''"]
  show ?thesis by (simp add: GetFile_def)
qed

section \<open>Properties of the collection manager\<close>

lemma fcard_fmdom_0: "fcard (fmdom m) = 0 \<longleftrightarrow> m = fmempty"
proof
  assume "fcard (fmdom m) = 0"
  then have "fmdom m = {||}" by simp
  then show "m = fmempty" by (simp add: fmap_ext fmdom_notD)
next
  assume "m = fmempty"
  then show "fcard (fmdom m) = 0" by simp
qed

lemma fmdom_empty_iff: "fmdom m = {||} \<longleftrightarrow> m = fmempty"
  using fcard_fmdom_0 [of m] by simp

text \<open>
  Claim C8.  In a collection cycle, when the disk map or the network map of the merged
  snapshot is empty, nothing is enqueued and no error is returned.  Otherwise the snapshot
  is offered to the queue without blocking: with a free slot it is appended to the queue,
  and with a full queue it is dropped, the queue is unchanged, the drop is logged as a
  warning and returned as the error ``metrics channel full''.  The queue of the program has
  ten slots, so with ten snapshots queued the next one is dropped.
\<close>

theorem C8_collectOnce_enqueue:
  "(Disks (mergeSnapshot now cpuRes memRes diskRes netRes) = fmempty
            \<or> Networks (mergeSnapshot now cpuRes memRes diskRes netRes) = fmempty \<longrightarrow>
            fst (collectOnce now cpuRes memRes diskRes netRes m) = None
          \<and> metricsChan (snd (collectOnce now cpuRes memRes diskRes netRes m)) = metricsChan m)
       \<and> (Disks (mergeSnapshot now cpuRes memRes diskRes netRes) \<noteq> fmempty
            \<and> Networks (mergeSnapshot now cpuRes memRes diskRes netRes) \<noteq> fmempty
            \<and> length (queue (metricsChan m)) < capacity (metricsChan m) \<longrightarrow>
            fst (collectOnce now cpuRes memRes diskRes netRes m) = None
          \<and> queue (metricsChan (snd (collectOnce now cpuRes memRes diskRes netRes m)))
              = queue (metricsChan m) @ [mergeSnapshot now cpuRes memRes diskRes netRes]
          \<and> capacity (metricsChan (snd (collectOnce now cpuRes memRes diskRes netRes m)))
              = capacity (metricsChan m))
       \<and> (Disks (mergeSnapshot now cpuRes memRes diskRes netRes) \<noteq> fmempty
            \<and> Networks (mergeSnapshot now cpuRes memRes diskRes netRes) \<noteq> fmempty
            \<and> capacity (metricsChan m) \<le> length (queue (metricsChan m)) \<longrightarrow>
            fst (collectOnce now cpuRes memRes diskRes netRes m) = Some ChannelFull
          \<and> errorText ChannelFull = ''metrics channel full''
          \<and> metricsChan (snd (collectOnce now cpuRes memRes diskRes netRes m)) = metricsChan m
          \<and> last (logged (snd (collectOnce now cpuRes memRes diskRes netRes m)))
              = (LevelWarn, ''Metrics channel full, dropping snapshot''))
       \<and> capacity newMetricsChan = 10"
  by (auto simp: collectOnce_def Let_def trySend_def logMsg_def fmdom_empty_iff
      newMetricsChan_def split: option.splits)

lemma mergeSnapshot_rotation:
  "mergeSnapshot (unixTime 1698314400) (Inr (50, 1)) (Inr 70)
     (Inr (Some (Disks rotationSnapshot))) (Inr (Some (Networks rotationSnapshot)))
   = rotationSnapshot"
  by (simp add: mergeSnapshot_def rotationSnapshot_def)

lemma rotationSnapshot_maps:
  "Disks rotationSnapshot \<noteq> fmempty" "Networks rotationSnapshot \<noteq> fmempty"
proof -
  have "fmlookup (Disks rotationSnapshot) ''sda'' \<noteq> fmlookup fmempty ''sda''"
    by (simp add: rotationSnapshot_def)
  then show "Disks rotationSnapshot \<noteq> fmempty" by metis
  have "fmlookup (Networks rotationSnapshot) ''eth0'' \<noteq> fmlookup fmempty ''eth0''"
    by (simp add: rotationSnapshot_def)
  then show "Networks rotationSnapshot \<noteq> fmempty" by metis
qed

theorem C8_collectOnce_enqueue_witness:
  "fst (collectOnce (unixTime 1698314400) (Inr (50, 1)) (Inr 70)
          (Inr (Some (Disks rotationSnapshot))) (Inr (Some (Networks rotationSnapshot)))
          \<lparr>metricsChan = newMetricsChan\<lparr>queue := replicate 10 rotationSnapshot\<rparr>, logged = []\<rparr>)
     = Some ChannelFull
   \<and> queue (metricsChan (snd (collectOnce (unixTime 1698314400) (Inr (50, 1)) (Inr 70)
          (Inr (Some (Disks rotationSnapshot))) (Inr (Some (Networks rotationSnapshot)))
          \<lparr>metricsChan = newMetricsChan\<lparr>queue := replicate 10 rotationSnapshot\<rparr>, logged = []\<rparr>)))
     = replicate 10 rotationSnapshot
   \<and> queue (metricsChan (snd (collectOnce (unixTime 1698314400) (Inr (50, 1)) (Inr 70)
          (Inr (Some (Disks rotationSnapshot))) (Inr (Some (Networks rotationSnapshot)))
          \<lparr>metricsChan = newMetricsChan, logged = []\<rparr>)))
     = [rotationSnapshot]
   \<and> queue (metricsChan (snd (collectOnce (unixTime 1698314400) (Inr (50, 1)) (Inr 70)
          (Inr None) (Inr (Some (Networks rotationSnapshot)))
          \<lparr>metricsChan = newMetricsChan, logged = []\<rparr>)))
     = []"
proof -
  note snap = mergeSnapshot_rotation
  have full: "capacity (metricsChan \<lparr>metricsChan = newMetricsChan\<lparr>queue := replicate 10 rotationSnapshot\<rparr>,
                  logged = []\<rparr>)
        \<le> length (queue (metricsChan \<lparr>metricsChan = newMetricsChan\<lparr>queue := replicate 10 rotationSnapshot\<rparr>,
                  logged = []\<rparr>))"
    by (simp add: newMetricsChan_def)
  have free: "length (queue (metricsChan \<lparr>metricsChan = newMetricsChan, logged = []\<rparr>))
        < capacity (metricsChan \<lparr>metricsChan = newMetricsChan, logged = []\<rparr>)"
    by (simp add: newMetricsChan_def)
  have nodisk: "Disks (mergeSnapshot (unixTime 1698314400) (Inr (50, 1)) (Inr 70)
          (Inr None) (Inr (Some (Networks rotationSnapshot)))) = fmempty"
    by (simp add: mergeSnapshot_def)
  note t1 = C8_collectOnce_enqueue [of "unixTime 1698314400" "Inr (50, 1)" "Inr 70"
      "Inr (Some (Disks rotationSnapshot))" "Inr (Some (Networks rotationSnapshot))"
      "\<lparr>metricsChan = newMetricsChan\<lparr>queue := replicate 10 rotationSnapshot\<rparr>, logged = []\<rparr>",
      unfolded snap]
  note t2 = C8_collectOnce_enqueue [of "unixTime 1698314400" "Inr (50, 1)" "Inr 70"
      "Inr (Some (Disks rotationSnapshot))" "Inr (Some (Networks rotationSnapshot))"
      "\<lparr>metricsChan = newMetricsChan, logged = []\<rparr>", unfolded snap]
  note t3 = C8_collectOnce_enqueue [of "unixTime 1698314400" "Inr (50, 1)" "Inr 70"
      "Inr None" "Inr (Some (Networks rotationSnapshot))"
      "\<lparr>metricsChan = newMetricsChan, logged = []\<rparr>"]
  have a: "fst (collectOnce (unixTime 1698314400) (Inr (50, 1)) (Inr 70)
          (Inr (Some (Disks rotationSnapshot))) (Inr (Some (Networks rotationSnapshot)))
          \<lparr>metricsChan = newMetricsChan\<lparr>queue := replicate 10 rotationSnapshot\<rparr>, logged = []\<rparr>)
     = Some ChannelFull"
    using t1 full rotationSnapshot_maps by blast
  have "metricsChan (snd (collectOnce (unixTime 1698314400) (Inr (50, 1)) (Inr 70)
          (Inr (Some (Disks rotationSnapshot))) (Inr (Some (Networks rotationSnapshot)))
          \<lparr>metricsChan = newMetricsChan\<lparr>queue := replicate 10 rotationSnapshot\<rparr>, logged = []\<rparr>))
     = metricsChan \<lparr>metricsChan = newMetricsChan\<lparr>queue := replicate 10 rotationSnapshot\<rparr>,
                  logged = []\<rparr>"
    using t1 full rotationSnapshot_maps by blast
  then have b: "queue (metricsChan (snd (collectOnce (unixTime 1698314400) (Inr (50, 1)) (Inr 70)
          (Inr (Some (Disks rotationSnapshot))) (Inr (Some (Networks rotationSnapshot)))
          \<lparr>metricsChan = newMetricsChan\<lparr>queue := replicate 10 rotationSnapshot\<rparr>, logged = []\<rparr>)))
     = replicate 10 rotationSnapshot"
    by simp
  have "queue (metricsChan (snd (collectOnce (unixTime 1698314400) (Inr (50, 1)) (Inr 70)
          (Inr (Some (Disks rotationSnapshot))) (Inr (Some (Networks rotationSnapshot)))
          \<lparr>metricsChan = newMetricsChan, logged = []\<rparr>)))
     = queue (metricsChan \<lparr>metricsChan = newMetricsChan, logged = []\<rparr>) @ [rotationSnapshot]"
    using t2 free rotationSnapshot_maps by blast
  then have c: "queue (metricsChan (snd (collectOnce (unixTime 1698314400) (Inr (50, 1)) (Inr 70)
          (Inr (Some (Disks rotationSnapshot))) (Inr (Some (Networks rotationSnapshot)))
          \<lparr>metricsChan = newMetricsChan, logged = []\<rparr>)))
     = [rotationSnapshot]"
    by (simp add: newMetricsChan_def)
  have "metricsChan (snd (collectOnce (unixTime 1698314400) (Inr (50, 1)) (Inr 70)
          (Inr None) (Inr (Some (Networks rotationSnapshot)))
          \<lparr>metricsChan = newMetricsChan, logged = []\<rparr>))
     = metricsChan \<lparr>metricsChan = newMetricsChan, logged = []\<rparr>"
    using t3 nodisk by blast
  then have d: "queue (metricsChan (snd (collectOnce (unixTime 1698314400) (Inr (50, 1)) (Inr 70)
          (Inr None) (Inr (Some (Networks rotationSnapshot)))
          \<lparr>metricsChan = newMetricsChan, logged = []\<rparr>)))
     = []"
    by (simp add: newMetricsChan_def)
  from a b c d show ?thesis by (intro conjI)
qed

section \<open>Properties of file rotation\<close>












lemma noFaults_fields:
  "flushFails noFaults = False" "closeFails noFaults = False" "openFails noFaults = False"
  "writeFails noFaults = False" "statFails noFaults p = False"
  by (simp_all add: noFaults_def)



lemma flush_header:
  fixes e :: CSVExporter
  shows "flush noFaults (e\<lparr>outFile := newPath, buffered := hdr\<rparr>, fmupd newPath [] fs)
     = (True, e\<lparr>outFile := newPath, buffered := []\<rparr>, fmupd newPath hdr fs)"
  by (simp add: flush_def noFaults_fields contents_def)



lemma sortedKeys_single: "sortedKeys (fmupd k v fmempty) = [k]"
  by (simp add: sortedKeys_def sorted_list_of_fset.rep_eq)

lemma header_example:
  "plainRow (headerRow rotationSnapshot) =
     ''Timestamp,CPU Utilization (%),CPU IO Wait (%),Memory Utilization (%),''
     @ ''Disk [sda] Utilization (%),Disk [sda] Average Wait (ms),Disk [sda] Throughput (IOPS),''
     @ ''Network [eth0] Throughput (Mbps)'' @ [CHR 0x0A]"
  by (simp add: plainRow_def headerRow_def rotationSnapshot_def sortedKeys_single diskColumns_def
      netColumn_def)



end
